theory Spec2Isabelle
  imports Main "HOL-Library.Product_Lexorder" "HOL-Library.Multiset"
begin

text \<open>
  The schema module of the portfolio site (\<^verbatim>\<open>schema.ts\<close>): eight PostgreSQL tables declared
  with drizzle-orm, and for each an insert schema derived with drizzle-zod. The module is
  declarative. Its declarations are embedded as data, table by table and column by
  column; the library functions it calls (\<open>createInsertSchema\<close>, \<open>pick\<close>), the validation
  its schemas perform (\<open>safeParse\<close>) and the database that stores the tables are embedded
  as the functions that interpret that data.
\<close>

section \<open>Values\<close>

text \<open>
  A candidate record and a stored row are JavaScript objects: finite maps from property
  names to values. Numbers are modelled as integers (floating point is not modelled);
  \<open>VOther\<close> stands for any value that is none of the others (an array, a nested object).
  An absent key is JavaScript's \<open>undefined\<close>.
\<close>

datatype val = VString string | VNumber int | VBoolean bool | VDate nat | VNull | VOther

type_synonym obj = "string \<rightharpoonup> val"

section \<open>Column and table declarations (drizzle-orm/pg-core)\<close>

text \<open>
  A column is what its builder chain has configured: the SQL name and type, NOT NULL,
  whether it has a default and which, PRIMARY KEY, UNIQUE, and the column it references.
  A default is a literal or \<open>now()\<close>. Each builder method is a function on columns, so
  that \<^verbatim>\<open>text("username").notNull().unique()\<close> reads
  \<open>unique (notNull (pgText ''username''))\<close>. The builder \<^verbatim>\<open>text\<close> is \<open>pgText\<close> and the
  method \<^verbatim>\<open>default\<close> is \<open>default_to\<close>, the two names being taken in Isabelle.
\<close>

datatype coltype = PgSerial | PgText | PgInteger | PgBoolean | PgTimestamp

datatype dflt = DefaultValue val | DefaultNow

record column =
  colName :: string
  colType :: coltype
  colNotNull :: bool
  colHasDefault :: bool
  colDefault :: "dflt option"
  colPrimary :: bool
  colUnique :: bool
  colReferences :: "(string \<times> string) option"

definition mkColumn :: "string \<Rightarrow> coltype \<Rightarrow> column" where
  "mkColumn n ty = \<lparr>colName = n, colType = ty, colNotNull = False, colHasDefault = False,
     colDefault = None, colPrimary = False, colUnique = False, colReferences = None\<rparr>"

text \<open>A serial column is NOT NULL and has a default (the next value of its sequence).\<close>

definition serial :: "string \<Rightarrow> column" where
  "serial n = (mkColumn n PgSerial)\<lparr>colNotNull := True, colHasDefault := True\<rparr>"

definition pgText :: "string \<Rightarrow> column" where
  "pgText n = mkColumn n PgText"

definition integer :: "string \<Rightarrow> column" where
  "integer n = mkColumn n PgInteger"

definition boolean :: "string \<Rightarrow> column" where
  "boolean n = mkColumn n PgBoolean"

definition timestamp :: "string \<Rightarrow> column" where
  "timestamp n = mkColumn n PgTimestamp"

text \<open>\<^verbatim>\<open>.primaryKey()\<close> also makes the column NOT NULL; \<^verbatim>\<open>.default(v)\<close> and \<^verbatim>\<open>.defaultNow()\<close>
  record that the column has a default.\<close>

definition notNull :: "column \<Rightarrow> column" where
  "notNull c = c\<lparr>colNotNull := True\<rparr>"

definition primaryKey :: "column \<Rightarrow> column" where
  "primaryKey c = c\<lparr>colPrimary := True, colNotNull := True\<rparr>"

definition unique :: "column \<Rightarrow> column" where
  "unique c = c\<lparr>colUnique := True\<rparr>"

definition default_to :: "val \<Rightarrow> column \<Rightarrow> column" where
  "default_to v c = c\<lparr>colDefault := Some (DefaultValue v), colHasDefault := True\<rparr>"

definition defaultNow :: "column \<Rightarrow> column" where
  "defaultNow c = c\<lparr>colDefault := Some DefaultNow, colHasDefault := True\<rparr>"

text \<open>\<^verbatim>\<open>.references(() => projects.id)\<close> names the referenced table and the key of its column.\<close>

definition references :: "string \<Rightarrow> string \<Rightarrow> column \<Rightarrow> column" where
  "references t k c = c\<lparr>colReferences := Some (t, k)\<rparr>"

text \<open>
  A table has a name and its columns, each under the key the module gives it (the key
  is what insert schemas and rows use; the SQL name may differ, as \<open>liveUrl\<close> and
  \<open>live_url\<close>). \<open>pgTableWithKey\<close> is \<^verbatim>\<open>pgTable\<close> with the third argument that declares a
  composite primary key over the listed columns.
\<close>

record table =
  tableName :: string
  columns :: "(string \<times> column) list"
  compositeKey :: "string list"

definition pgTable :: "string \<Rightarrow> (string \<times> column) list \<Rightarrow> table" where
  "pgTable n cs = \<lparr>tableName = n, columns = cs, compositeKey = []\<rparr>"

definition pgTableWithKey :: "string \<Rightarrow> (string \<times> column) list \<Rightarrow> string list \<Rightarrow> table" where
  "pgTableWithKey n cs pk = \<lparr>tableName = n, columns = cs, compositeKey = pk\<rparr>"

section \<open>The tables of the schema\<close>

definition messages :: table where
  "messages = pgTable ''messages''
     [(''id'', primaryKey (serial ''id'')),
      (''name'', notNull (pgText ''name'')),
      (''email'', notNull (pgText ''email'')),
      (''subject'', pgText ''subject''),
      (''message'', notNull (pgText ''message'')),
      (''createdAt'', defaultNow (notNull (timestamp ''created_at'')))]"

definition users :: table where
  "users = pgTable ''users''
     [(''id'', primaryKey (serial ''id'')),
      (''username'', unique (notNull (pgText ''username''))),
      (''password'', notNull (pgText ''password''))]"

definition projects :: table where
  "projects = pgTable ''projects''
     [(''id'', primaryKey (serial ''id'')),
      (''title'', notNull (pgText ''title'')),
      (''description'', notNull (pgText ''description'')),
      (''image'', pgText ''image''),
      (''github'', notNull (pgText ''github'')),
      (''liveUrl'', pgText ''live_url''),
      (''featured'', default_to (VBoolean False) (boolean ''featured'')),
      (''createdAt'', defaultNow (notNull (timestamp ''created_at'')))]"

definition tags :: table where
  "tags = pgTable ''tags''
     [(''id'', primaryKey (serial ''id'')),
      (''name'', unique (notNull (pgText ''name''))),
      (''color'', default_to (VString ''gray'') (pgText ''color''))]"

definition projectTags :: table where
  "projectTags = pgTableWithKey ''project_tags''
     [(''projectId'', references ''projects'' ''id'' (notNull (integer ''project_id''))),
      (''tagId'', references ''tags'' ''id'' (notNull (integer ''tag_id'')))]
     [''projectId'', ''tagId'']"

definition skills :: table where
  "skills = pgTable ''skills''
     [(''id'', primaryKey (serial ''id'')),
      (''name'', unique (notNull (pgText ''name''))),
      (''icon'', notNull (pgText ''icon'')),
      (''category'', notNull (pgText ''category'')),
      (''description'', pgText ''description''),
      (''order'', default_to (VNumber 0) (integer ''order''))]"

definition experiences :: table where
  "experiences = pgTable ''experiences''
     [(''id'', primaryKey (serial ''id'')),
      (''title'', notNull (pgText ''title'')),
      (''subtitle'', notNull (pgText ''subtitle'')),
      (''date'', pgText ''date''),
      (''type'', notNull (pgText ''type'')),
      (''order'', default_to (VNumber 0) (integer ''order''))]"

definition experienceDetails :: table where
  "experienceDetails = pgTable ''experience_details''
     [(''id'', primaryKey (serial ''id'')),
      (''experienceId'', references ''experiences'' ''id'' (notNull (integer ''experience_id''))),
      (''detail'', notNull (pgText ''detail'')),
      (''order'', default_to (VNumber 0) (integer ''order''))]"

section \<open>Insert schemas (drizzle-zod, zod)\<close>

text \<open>
  A zod object schema is a list of keys, each with a base type and the two flags that
  \<open>.nullable()\<close> and \<open>.optional()\<close> set. The base type of an integer or serial column is
  a number checked to be an integer in the range of PostgreSQL's 32-bit \<open>integer\<close>.
  (Releases of drizzle-zod that do not check the range accept every number there; the
  stricter check is the one modelled, so that what is proved to be accepted is accepted
  under both.)
\<close>

datatype zbase = ZString | ZInt32 | ZBoolean | ZDate

record zfield =
  zType :: zbase
  zNullable :: bool
  zOptional :: bool

type_synonym zshape = "(string \<times> zfield) list"

fun mapColumnToSchema :: "coltype \<Rightarrow> zbase" where
  "mapColumnToSchema PgSerial = ZInt32"
| "mapColumnToSchema PgText = ZString"
| "mapColumnToSchema PgInteger = ZInt32"
| "mapColumnToSchema PgBoolean = ZBoolean"
| "mapColumnToSchema PgTimestamp = ZDate"

text \<open>
  \<open>createInsertSchema\<close> gives every column of the table a field: nullable and optional
  when the column is not NOT NULL, optional when it is NOT NULL with a default, required
  otherwise.
\<close>

definition columnSchema :: "column \<Rightarrow> zfield" where
  "columnSchema c =
     (if \<not> colNotNull c
      then \<lparr>zType = mapColumnToSchema (colType c), zNullable = True, zOptional = True\<rparr>
      else if colHasDefault c
      then \<lparr>zType = mapColumnToSchema (colType c), zNullable = False, zOptional = True\<rparr>
      else \<lparr>zType = mapColumnToSchema (colType c), zNullable = False, zOptional = False\<rparr>)"

definition createInsertSchema :: "table \<Rightarrow> zshape" where
  "createInsertSchema t = map (\<lambda>(k, c). (k, columnSchema c)) (columns t)"

text \<open>\<open>.pick(mask)\<close> keeps the keys of the mask that the shape has, in the mask's order.\<close>

definition pick :: "string list \<Rightarrow> zshape \<Rightarrow> zshape" where
  "pick ks shape =
     List.map_filter (\<lambda>k. map_option (\<lambda>f. (k, f)) (map_of shape k)) ks"

definition insertMessageSchema :: zshape where
  "insertMessageSchema =
     pick [''name'', ''email'', ''subject'', ''message''] (createInsertSchema messages)"

definition insertUserSchema :: zshape where
  "insertUserSchema = pick [''username'', ''password''] (createInsertSchema users)"

definition insertProjectSchema :: zshape where
  "insertProjectSchema =
     pick [''title'', ''description'', ''image'', ''github'', ''liveUrl'', ''featured'']
       (createInsertSchema projects)"

definition insertTagSchema :: zshape where
  "insertTagSchema = pick [''name'', ''color''] (createInsertSchema tags)"

definition insertProjectTagSchema :: zshape where
  "insertProjectTagSchema = createInsertSchema projectTags"

definition insertSkillSchema :: zshape where
  "insertSkillSchema =
     pick [''name'', ''icon'', ''category'', ''description'', ''order'']
       (createInsertSchema skills)"

definition insertExperienceSchema :: zshape where
  "insertExperienceSchema =
     pick [''title'', ''subtitle'', ''date'', ''type'', ''order'']
       (createInsertSchema experiences)"

definition insertExperienceDetailSchema :: zshape where
  "insertExperienceDetailSchema =
     pick [''experienceId'', ''detail'', ''order''] (createInsertSchema experienceDetails)"

text \<open>Every entity: its table (the persisted shape) with its insert schema (the insertable shape).\<close>

definition entities :: "(table \<times> zshape) list" where
  "entities =
     [(messages, insertMessageSchema), (users, insertUserSchema),
      (projects, insertProjectSchema), (tags, insertTagSchema),
      (projectTags, insertProjectTagSchema), (skills, insertSkillSchema),
      (experiences, insertExperienceSchema),
      (experienceDetails, insertExperienceDetailSchema)]"

section \<open>Validation (zod's safeParse on an object schema)\<close>

datatype parsedType =
  TUndefined | TNull | TString | TNumber | TBoolean | TDate | TUnknown

fun getParsedType :: "val \<Rightarrow> parsedType" where
  "getParsedType (VString _) = TString"
| "getParsedType (VNumber _) = TNumber"
| "getParsedType (VBoolean _) = TBoolean"
| "getParsedType (VDate _) = TDate"
| "getParsedType VNull = TNull"
| "getParsedType VOther = TUnknown"

text \<open>
  An issue names the key it is about. \<open>InvalidType k expected received\<close> is zod's
  \<open>invalid_type\<close>; with \<open>received = TUndefined\<close> it is the issue of a missing required key
  (message "Required").
\<close>

datatype zodIssue =
  InvalidType string zbase parsedType | TooSmall string | TooBig string

fun issuePath :: "zodIssue \<Rightarrow> string" where
  "issuePath (InvalidType k _ _) = k"
| "issuePath (TooSmall k) = k"
| "issuePath (TooBig k) = k"

fun parseBase :: "string \<Rightarrow> zbase \<Rightarrow> val \<Rightarrow> zodIssue list" where
  "parseBase k ZString (VString _) = []"
| "parseBase k ZInt32 (VNumber n) =
     (if n < - 2147483648 then [TooSmall k] else if 2147483647 < n then [TooBig k] else [])"
| "parseBase k ZBoolean (VBoolean _) = []"
| "parseBase k ZDate (VDate _) = []"
| "parseBase k b v = [InvalidType k b (getParsedType v)]"

definition parseKey :: "obj \<Rightarrow> string \<times> zfield \<Rightarrow> zodIssue list" where
  "parseKey data kf =
     (case data (fst kf) of
        None \<Rightarrow>
          if zOptional (snd kf) then [] else [InvalidType (fst kf) (zType (snd kf)) TUndefined]
      | Some v \<Rightarrow>
          if v = VNull \<and> zNullable (snd kf) then [] else parseBase (fst kf) (zType (snd kf)) v)"

text \<open>
  A key is parsed as zod parses an optional, nullable or plain field: an absent key is
  accepted if the field is optional, \<open>null\<close> if it is nullable, and any other value is
  checked against the base type.

  \<open>safeParse\<close> does not throw: it returns the list of issues (\<open>Inl\<close>), the issues of each
  offending key in the order of the shape, or the parsed object (\<open>Inr\<close>), which holds the
  keys of the shape that the candidate has; unknown keys are stripped. (\<^verbatim>\<open>parse\<close> on the
  same schema would throw these issues as a \<^verbatim>\<open>ZodError\<close>.)
\<close>

definition safeParse :: "zshape \<Rightarrow> obj \<Rightarrow> zodIssue list + obj" where
  "safeParse shape data =
     (let issues = concat (map (parseKey data) shape)
      in if issues = [] then Inr (data |` set (map fst shape)) else Inl issues)"

section \<open>Required fields and correctly typed values\<close>

text \<open>
  The required insertable fields of an entity are the keys of its insert schema whose
  column is NOT NULL and has no default. A value is correctly typed for a column when it
  is of the column's type: a string for \<open>text\<close>, an integer in the 32-bit range for
  \<open>integer\<close> and \<open>serial\<close>, a boolean for \<open>boolean\<close>, a date for \<open>timestamp\<close>.
\<close>

fun hasColType :: "coltype \<Rightarrow> val \<Rightarrow> bool" where
  "hasColType PgText (VString _) = True"
| "hasColType PgInteger (VNumber n) = (- 2147483648 \<le> n \<and> n \<le> 2147483647)"
| "hasColType PgSerial (VNumber n) = (- 2147483648 \<le> n \<and> n \<le> 2147483647)"
| "hasColType PgBoolean (VBoolean _) = True"
| "hasColType PgTimestamp (VDate _) = True"
| "hasColType _ _ = False"

definition requiredInsertable :: "table \<Rightarrow> zshape \<Rightarrow> string list" where
  "requiredInsertable t sh =
     filter (\<lambda>k. case map_of (columns t) k of
                   Some c \<Rightarrow> colNotNull c \<and> \<not> colHasDefault c
                 | None \<Rightarrow> False) (map fst sh)"

definition correctlyTyped :: "table \<Rightarrow> string \<Rightarrow> val \<Rightarrow> bool" where
  "correctlyTyped t k v =
     (case map_of (columns t) k of Some c \<Rightarrow> hasColType (colType c) v | None \<Rightarrow> False)"

section \<open>Inserting into the declared tables\<close>

text \<open>
  The database is not part of the schema file; what the file decides is which defaults
  and constraints each table declares. They are given the meaning PostgreSQL gives them.
  A store holds the rows of every table, by table name, in insertion order. The clock
  and the next value of a table's id sequence come from outside.

  An insert leaves out no column: a column the values do not supply gets the next
  sequence value if it is serial, its declared default if it has one, and NULL
  otherwise; a supplied value, \<open>null\<close> included, is stored as it is. Keys that are not
  columns of the table are ignored. Values are not checked against the column types:
  that is the validator's work, and nothing proved below depends on it.
\<close>

type_synonym store = "string \<Rightarrow> obj list"

definition emptyStore :: store where
  "emptyStore = (\<lambda>_. [])"

definition columnValue :: "nat \<Rightarrow> int \<Rightarrow> column \<Rightarrow> val option \<Rightarrow> val" where
  "columnValue now n c supplied =
     (case supplied of
        Some v \<Rightarrow> v
      | None \<Rightarrow>
          if colType c = PgSerial then VNumber n
          else (case colDefault c of
                  Some (DefaultValue d) \<Rightarrow> d
                | Some DefaultNow \<Rightarrow> VDate now
                | None \<Rightarrow> VNull))"

definition persistedRow :: "table \<Rightarrow> nat \<Rightarrow> int \<Rightarrow> obj \<Rightarrow> obj" where
  "persistedRow t now n v =
     (\<lambda>k. map_option (\<lambda>c. columnValue now n c (v k)) (map_of (columns t) k))"

text \<open>
  The row is rejected when it breaks a declared constraint: NOT NULL; UNIQUE or PRIMARY
  KEY of a single column (NULLs never collide); the table's composite primary key; a
  foreign key, whose non-NULL value must be the referenced column's value in some row of
  the referenced table. The first violation, in this order, is the error; a rejected
  insert leaves the store as it was, an accepted one appends the row to its table.
\<close>

datatype constraintError =
    NotNullViolation string string
  | UniqueViolation string "string list"
  | ForeignKeyViolation string string

definition notNullViolations :: "table \<Rightarrow> obj \<Rightarrow> constraintError list" where
  "notNullViolations t row =
     [NotNullViolation (tableName t) k. (k, c) \<leftarrow> columns t, colNotNull c \<and> row k = Some VNull]"

definition uniqueViolations :: "table \<Rightarrow> obj list \<Rightarrow> obj \<Rightarrow> constraintError list" where
  "uniqueViolations t rows row =
     [UniqueViolation (tableName t) [k]. (k, c) \<leftarrow> columns t,
        (colUnique c \<or> colPrimary c) \<and> row k \<noteq> Some VNull \<and> (\<exists>r \<in> set rows. r k = row k)]"

definition compositeKeyViolations :: "table \<Rightarrow> obj list \<Rightarrow> obj \<Rightarrow> constraintError list" where
  "compositeKeyViolations t rows row =
     (if compositeKey t \<noteq> [] \<and> (\<exists>r \<in> set rows. \<forall>k \<in> set (compositeKey t). r k = row k)
      then [UniqueViolation (tableName t) (compositeKey t)] else [])"

definition foreignKeyViolations :: "store \<Rightarrow> table \<Rightarrow> obj \<Rightarrow> constraintError list" where
  "foreignKeyViolations s t row =
     [ForeignKeyViolation (tableName t) k. (k, c) \<leftarrow> columns t,
        case colReferences c of
          None \<Rightarrow> False
        | Some (tn, rk) \<Rightarrow> row k \<noteq> Some VNull \<and> \<not> (\<exists>r \<in> set (s tn). r rk = row k)]"

definition violations :: "store \<Rightarrow> table \<Rightarrow> obj \<Rightarrow> constraintError list" where
  "violations s t row =
     notNullViolations t row @ uniqueViolations t (s (tableName t)) row
       @ compositeKeyViolations t (s (tableName t)) row @ foreignKeyViolations s t row"

definition insertRow ::
  "nat \<Rightarrow> int \<Rightarrow> table \<Rightarrow> obj \<Rightarrow> store \<Rightarrow> (constraintError + obj) \<times> store" where
  "insertRow now n t v s =
     (let row = persistedRow t now n v
      in case violations s t row of
           e # _ \<Rightarrow> (Inl e, s)
         | [] \<Rightarrow> (Inr row, s(tableName t := s (tableName t) @ [row])))"

text \<open>
  The reachable stores: the empty one, and every store an insert into one of the eight
  tables leaves, whatever the values, the clock and the sequence value. Rows are only
  ever inserted; updating and deleting rows is not modelled.
\<close>

definition schemaTables :: "table list" where
  "schemaTables = map fst entities"

inductive reachable :: "store \<Rightarrow> bool" where
  reachable_empty: "reachable emptyStore"
| reachable_insert:
    "reachable s \<Longrightarrow> t \<in> set schemaTables \<Longrightarrow> reachable (snd (insertRow now n t v s))"

section \<open>Retrieving the details of an experience\<close>

text \<open>
  Modelled from the spec: the query that fetches the ExperienceDetail children of an
  Experience is not in the schema file, which declares the relation without an order.
  The spec orders the children by the \<open>order\<close> field ascending, ties broken by identity
  ascending. A NULL \<open>order\<close> sorts after every number, as in PostgreSQL's ascending order.
\<close>

definition detailOrderKey :: "obj \<Rightarrow> (nat \<times> int) \<times> int" where
  "detailOrderKey r =
     ((case r ''order'' of Some (VNumber n) \<Rightarrow> (0, n) | _ \<Rightarrow> (1, 0)),
      (case r ''id'' of Some (VNumber i) \<Rightarrow> i | _ \<Rightarrow> 0))"

definition experienceDetailsOf :: "store \<Rightarrow> val \<Rightarrow> obj list" where
  "experienceDetailsOf s eid =
     sort_key detailOrderKey
       (filter (\<lambda>r. r ''experienceId'' = Some eid) (s ''experience_details''))"

section \<open>Unfolding the declarations\<close>

lemmas builder_defs = mkColumn_def serial_def pgText_def integer_def boolean_def timestamp_def
  notNull_def primaryKey_def unique_def default_to_def defaultNow_def references_def
  pgTable_def pgTableWithKey_def

lemmas table_defs = messages_def users_def projects_def tags_def projectTags_def skills_def
  experiences_def experienceDetails_def

lemmas insert_schema_defs = insertMessageSchema_def insertUserSchema_def insertProjectSchema_def
  insertTagSchema_def insertProjectTagSchema_def insertSkillSchema_def
  insertExperienceSchema_def insertExperienceDetailSchema_def

lemmas schema_defs = createInsertSchema_def pick_def columnSchema_def List.map_filter_def

section \<open>Validation accepts exactly the required fields\<close>

lemma safeParse_all_ok:
  assumes "\<forall>kf \<in> set sh. parseKey c kf = []" and "dom c \<subseteq> fst ` set sh"
  shows "safeParse sh c = Inr c"
proof -
  have "concat (map (parseKey c) sh) = []" using assms(1) by simp
  moreover have "c |` set (map fst sh) = c"
  proof
    fix k show "(c |` set (map fst sh)) k = c k"
      using assms(2) by (cases "c k") (auto simp: restrict_map_def)
  qed
  ultimately show ?thesis by (simp add: safeParse_def)
qed

lemma safeParse_Inr:
  assumes "safeParse sh c = Inr v"
  shows "concat (map (parseKey c) sh) = []" and "v = c |` set (map fst sh)"
  using assms by (auto simp: safeParse_def Let_def split: if_splits)

lemma pick_subset: "set (pick ks sh) \<subseteq> set sh"
  by (auto simp: pick_def List.map_filter_def dest: map_of_SomeD)

lemma createInsertSchema_mem:
  assumes "(k, f) \<in> set (createInsertSchema t)" and "distinct (map fst (columns t))"
  shows "\<exists>col. map_of (columns t) k = Some col \<and> f = columnSchema col"
  using assms by (auto simp: createInsertSchema_def)

lemma parseBase_typed: "hasColType ty v \<Longrightarrow> parseBase k (mapColumnToSchema ty) v = []"
  by (cases ty; cases v) auto

lemma hasColType_not_null: "hasColType ty v \<Longrightarrow> v \<noteq> VNull"
  by (cases ty; cases v) auto

lemma required_exact_ok:
  assumes sub: "set sh \<subseteq> set (createInsertSchema t)"
    and dist: "distinct (map fst (columns t))"
    and dom: "dom c = set (requiredInsertable t sh)"
    and typed: "\<forall>k v. c k = Some v \<longrightarrow> correctlyTyped t k v"
  shows "safeParse sh c = Inr c"
proof (rule safeParse_all_ok)
  show "dom c \<subseteq> fst ` set sh" using dom by (auto simp: requiredInsertable_def)
next
  show "\<forall>kf \<in> set sh. parseKey c kf = []"
  proof
    fix kf assume mem: "kf \<in> set sh"
    obtain k f where kf: "kf = (k, f)" by (cases kf)
    from mem kf sub have "(k, f) \<in> set (createInsertSchema t)" by auto
    from createInsertSchema_mem [OF this dist]
    obtain col where col: "map_of (columns t) k = Some col" and f: "f = columnSchema col"
      by blast
    show "parseKey c kf = []"
    proof (cases "c k")
      case None
      then have "k \<notin> set (requiredInsertable t sh)" using dom by auto
      moreover have "k \<in> set (map fst sh)" using mem kf by force
      ultimately have "\<not> (colNotNull col \<and> \<not> colHasDefault col)"
        using col by (simp add: requiredInsertable_def)
      then have "zOptional f" by (auto simp: f columnSchema_def)
      with None show ?thesis by (simp add: parseKey_def kf)
    next
      case (Some v)
      with typed have "correctlyTyped t k v" by blast
      then have "hasColType (colType col) v"
        using col by (simp add: correctlyTyped_def)
      then show ?thesis
        using Some parseBase_typed [of "colType col" v k] hasColType_not_null [of "colType col" v]
        by (simp add: parseKey_def kf f columnSchema_def)
    qed
  qed
qed

lemma entity_tables_distinct:
  "(t, sh) \<in> set entities \<Longrightarrow> distinct (map fst (columns t))"
  by (auto simp: entities_def table_defs builder_defs)

lemma entity_schema_subset:
  "(t, sh) \<in> set entities \<Longrightarrow> set sh \<subseteq> set (createInsertSchema t)"
  unfolding entities_def insert_schema_defs using pick_subset by auto

text \<open>The required insertable fields of the eight entities, computed from the declarations.\<close>

lemma required_fields:
  "requiredInsertable messages insertMessageSchema = [''name'', ''email'', ''message'']"
  "requiredInsertable users insertUserSchema = [''username'', ''password'']"
  "requiredInsertable projects insertProjectSchema = [''title'', ''description'', ''github'']"
  "requiredInsertable tags insertTagSchema = [''name'']"
  "requiredInsertable projectTags insertProjectTagSchema = [''projectId'', ''tagId'']"
  "requiredInsertable skills insertSkillSchema = [''name'', ''icon'', ''category'']"
  "requiredInsertable experiences insertExperienceSchema = [''title'', ''subtitle'', ''type'']"
  "requiredInsertable experienceDetails insertExperienceDetailSchema =
     [''experienceId'', ''detail'']"
  by (simp_all add: requiredInsertable_def insert_schema_defs table_defs builder_defs schema_defs)

text \<open>
  Claim C1. For each of the eight entities, a candidate whose keys are exactly the
  entity's required insertable fields, each with a value of its column's type, is
  accepted by the entity's insert schema, and the parsed object is the candidate itself:
  the same keys with the same values, nothing added and nothing dropped.
\<close>

theorem validate_required_exact:
  assumes "(t, sh) \<in> set entities"
    and "dom c = set (requiredInsertable t sh)"
    and "\<forall>k v. c k = Some v \<longrightarrow> correctlyTyped t k v"
  shows "safeParse sh c = Inr c"
  using required_exact_ok [OF entity_schema_subset [OF assms(1)]
      entity_tables_distinct [OF assms(1)] assms(2) assms(3)] .

theorem validate_required_exact_witness:
  "(users, insertUserSchema) \<in> set entities \<and>
   safeParse insertUserSchema
     [''username'' \<mapsto> VString ''melvin'', ''password'' \<mapsto> VString ''s3cret'']
     = Inr [''username'' \<mapsto> VString ''melvin'', ''password'' \<mapsto> VString ''s3cret'']"
proof -
  let ?c = "[''username'' \<mapsto> VString ''melvin'', ''password'' \<mapsto> VString ''s3cret'']"
  have e: "(users, insertUserSchema) \<in> set entities" by (simp add: entities_def)
  have d: "dom ?c = set (requiredInsertable users insertUserSchema)"
    by (simp add: required_fields) auto
  have ty: "\<forall>k v. ?c k = Some v \<longrightarrow> correctlyTyped users k v"
    by (auto simp: correctlyTyped_def users_def builder_defs split: if_splits)
  show ?thesis using e validate_required_exact [OF e d ty] by blast
qed

section \<open>Validation reports a missing required field\<close>

lemma required_is_field:
  assumes ent: "(t, sh) \<in> set entities" and req: "k \<in> set (requiredInsertable t sh)"
  shows "\<exists>col. map_of (columns t) k = Some col
           \<and> (k, \<lparr>zType = mapColumnToSchema (colType col), zNullable = False, zOptional = False\<rparr>) \<in> set sh"
proof -
  from req obtain f where mem: "(k, f) \<in> set sh" by (auto simp: requiredInsertable_def)
  with entity_schema_subset [OF ent] have "(k, f) \<in> set (createInsertSchema t)" by auto
  from createInsertSchema_mem [OF this entity_tables_distinct [OF ent]]
  obtain col where col: "map_of (columns t) k = Some col" and f: "f = columnSchema col" by blast
  from req col have "colNotNull col \<and> \<not> colHasDefault col"
    by (auto simp: requiredInsertable_def)
  then have "f = \<lparr>zType = mapColumnToSchema (colType col), zNullable = False, zOptional = False\<rparr>"
    by (simp add: f columnSchema_def)
  with mem col show ?thesis by blast
qed

lemma parseBase_path: "i \<in> set (parseBase k b v) \<Longrightarrow> issuePath i = k"
  by (cases b; cases v) (auto split: if_splits)

lemma parseKey_path: "i \<in> set (parseKey c kf) \<Longrightarrow> issuePath i = fst kf"
  by (auto simp: parseKey_def split: option.splits if_splits dest: parseBase_path)

lemma safeParse_issue_paths:
  assumes "safeParse sh c = Inl issues" and "i \<in> set issues"
  shows "issuePath i \<in> fst ` set sh"
proof -
  from assms have "i \<in> set (concat (map (parseKey c) sh))"
    by (auto simp: safeParse_def Let_def split: if_splits)
  then obtain kf where "kf \<in> set sh" and ik: "i \<in> set (parseKey c kf)" by auto
  from ik have "issuePath i = fst kf" by (rule parseKey_path)
  with \<open>kf \<in> set sh\<close> show ?thesis by simp
qed

text \<open>
  Claim C2. For each of the eight entities and each of its required insertable fields,
  a candidate that lacks the field is rejected: \<open>safeParse\<close> returns (it does not throw)
  a list of issues, every issue names a key of the schema, and among them is the
  \<open>invalid_type\<close> issue "Required" (received \<open>undefined\<close>) for the missing field.
\<close>

theorem missing_required_reported:
  assumes "(t, sh) \<in> set entities"
    and "k \<in> set (requiredInsertable t sh)"
    and "c k = None"
  shows "\<exists>issues col. safeParse sh c = Inl issues
           \<and> map_of (columns t) k = Some col
           \<and> InvalidType k (mapColumnToSchema (colType col)) TUndefined \<in> set issues
           \<and> issuePath ` set issues \<subseteq> fst ` set sh"
proof -
  from required_is_field [OF assms(1,2)] obtain col where
    col: "map_of (columns t) k = Some col" and
    mem: "(k, \<lparr>zType = mapColumnToSchema (colType col), zNullable = False, zOptional = False\<rparr>) \<in> set sh"
    by blast
  let ?i = "InvalidType k (mapColumnToSchema (colType col)) TUndefined"
  have "?i \<in> set (parseKey c (k, \<lparr>zType = mapColumnToSchema (colType col), zNullable = False, zOptional = False\<rparr>))"
    using assms(3) by (simp add: parseKey_def)
  with mem have in_all: "?i \<in> set (concat (map (parseKey c) sh))"
    unfolding set_concat set_map by blast
  then have "concat (map (parseKey c) sh) \<noteq> []" by force
  then have res: "safeParse sh c = Inl (concat (map (parseKey c) sh))"
    by (simp add: safeParse_def)
  have "issuePath ` set (concat (map (parseKey c) sh)) \<subseteq> fst ` set sh"
    using safeParse_issue_paths [OF res] by blast
  with res col in_all show ?thesis by blast
qed

theorem missing_required_reported_witness:
  "\<exists>issues. safeParse insertUserSchema [''username'' \<mapsto> VString ''melvin''] = Inl issues
     \<and> InvalidType ''password'' ZString TUndefined \<in> set issues"
proof -
  have e: "(users, insertUserSchema) \<in> set entities" by (simp add: entities_def)
  have r: "''password'' \<in> set (requiredInsertable users insertUserSchema)"
    by (simp add: required_fields)
  have n: "[''username'' \<mapsto> VString ''melvin''] ''password'' = None" by simp
  have col: "map_of (columns users) ''password'' = Some (notNull (pgText ''password''))"
    by (simp add: users_def builder_defs)
  from missing_required_reported
    [of users insertUserSchema "''password''" "[''username'' \<mapsto> VString ''melvin'']", OF e r n] col
  obtain issues c' where a: "safeParse insertUserSchema [''username'' \<mapsto> VString ''melvin''] = Inl issues"
    and b: "InvalidType ''password'' (mapColumnToSchema (colType c')) TUndefined \<in> set issues"
    and c: "Some (notNull (pgText ''password'')) = Some c'"
    by metis
  from c have "mapColumnToSchema (colType c') = ZString" by (auto simp: builder_defs)
  with a b show ?thesis by auto
qed

section \<open>The insertable shape against the persisted shape\<close>

lemma insert_schema_shapes:
  "insertMessageSchema =
     [(''name'', \<lparr>zType = ZString, zNullable = False, zOptional = False\<rparr>),
      (''email'', \<lparr>zType = ZString, zNullable = False, zOptional = False\<rparr>),
      (''subject'', \<lparr>zType = ZString, zNullable = True, zOptional = True\<rparr>),
      (''message'', \<lparr>zType = ZString, zNullable = False, zOptional = False\<rparr>)]"
  "insertUserSchema =
     [(''username'', \<lparr>zType = ZString, zNullable = False, zOptional = False\<rparr>),
      (''password'', \<lparr>zType = ZString, zNullable = False, zOptional = False\<rparr>)]"
  "insertProjectSchema =
     [(''title'', \<lparr>zType = ZString, zNullable = False, zOptional = False\<rparr>),
      (''description'', \<lparr>zType = ZString, zNullable = False, zOptional = False\<rparr>),
      (''image'', \<lparr>zType = ZString, zNullable = True, zOptional = True\<rparr>),
      (''github'', \<lparr>zType = ZString, zNullable = False, zOptional = False\<rparr>),
      (''liveUrl'', \<lparr>zType = ZString, zNullable = True, zOptional = True\<rparr>),
      (''featured'', \<lparr>zType = ZBoolean, zNullable = True, zOptional = True\<rparr>)]"
  "insertTagSchema =
     [(''name'', \<lparr>zType = ZString, zNullable = False, zOptional = False\<rparr>),
      (''color'', \<lparr>zType = ZString, zNullable = True, zOptional = True\<rparr>)]"
  "insertProjectTagSchema =
     [(''projectId'', \<lparr>zType = ZInt32, zNullable = False, zOptional = False\<rparr>),
      (''tagId'', \<lparr>zType = ZInt32, zNullable = False, zOptional = False\<rparr>)]"
  "insertSkillSchema =
     [(''name'', \<lparr>zType = ZString, zNullable = False, zOptional = False\<rparr>),
      (''icon'', \<lparr>zType = ZString, zNullable = False, zOptional = False\<rparr>),
      (''category'', \<lparr>zType = ZString, zNullable = False, zOptional = False\<rparr>),
      (''description'', \<lparr>zType = ZString, zNullable = True, zOptional = True\<rparr>),
      (''order'', \<lparr>zType = ZInt32, zNullable = True, zOptional = True\<rparr>)]"
  "insertExperienceSchema =
     [(''title'', \<lparr>zType = ZString, zNullable = False, zOptional = False\<rparr>),
      (''subtitle'', \<lparr>zType = ZString, zNullable = False, zOptional = False\<rparr>),
      (''date'', \<lparr>zType = ZString, zNullable = True, zOptional = True\<rparr>),
      (''type'', \<lparr>zType = ZString, zNullable = False, zOptional = False\<rparr>),
      (''order'', \<lparr>zType = ZInt32, zNullable = True, zOptional = True\<rparr>)]"
  "insertExperienceDetailSchema =
     [(''experienceId'', \<lparr>zType = ZInt32, zNullable = False, zOptional = False\<rparr>),
      (''detail'', \<lparr>zType = ZString, zNullable = False, zOptional = False\<rparr>),
      (''order'', \<lparr>zType = ZInt32, zNullable = True, zOptional = True\<rparr>)]"
  by (simp_all add: insert_schema_defs table_defs builder_defs schema_defs)

lemma table_keys:
  "map fst (columns messages) = [''id'', ''name'', ''email'', ''subject'', ''message'', ''createdAt'']"
  "map fst (columns users) = [''id'', ''username'', ''password'']"
  "map fst (columns projects) =
     [''id'', ''title'', ''description'', ''image'', ''github'', ''liveUrl'', ''featured'', ''createdAt'']"
  "map fst (columns tags) = [''id'', ''name'', ''color'']"
  "map fst (columns projectTags) = [''projectId'', ''tagId'']"
  "map fst (columns skills) = [''id'', ''name'', ''icon'', ''category'', ''description'', ''order'']"
  "map fst (columns experiences) = [''id'', ''title'', ''subtitle'', ''date'', ''type'', ''order'']"
  "map fst (columns experienceDetails) = [''id'', ''experienceId'', ''detail'', ''order'']"
  by (simp_all add: table_defs builder_defs)

lemma table_names:
  "tableName messages = ''messages''" "tableName users = ''users''"
  "tableName projects = ''projects''" "tableName tags = ''tags''"
  "tableName projectTags = ''project_tags''" "tableName skills = ''skills''"
  "tableName experiences = ''experiences''"
  "tableName experienceDetails = ''experience_details''"
  by (simp_all add: table_defs builder_defs)

lemma entity_cases:
  assumes "(t, sh) \<in> set entities"
  obtains "t = messages" "sh = insertMessageSchema"
    | "t = users" "sh = insertUserSchema"
    | "t = projects" "sh = insertProjectSchema"
    | "t = tags" "sh = insertTagSchema"
    | "t = projectTags" "sh = insertProjectTagSchema"
    | "t = skills" "sh = insertSkillSchema"
    | "t = experiences" "sh = insertExperienceSchema"
    | "t = experienceDetails" "sh = insertExperienceDetailSchema"
  using assms unfolding entities_def by auto


lemma insertable_key_set:
  assumes "(t, sh) \<in> set entities"
  shows "set (map fst sh) = set (map fst (columns t)) - {''id'', ''createdAt''}"
  using assms
  by (cases rule: entity_cases)
    (simp_all add: insert_schema_shapes table_keys insert_Diff_if)

lemma entity_has_id:
  assumes "(t, sh) \<in> set entities" and "tableName t \<noteq> ''project_tags''"
  shows "''id'' \<in> set (map fst (columns t))"
  using assms
  by (cases rule: entity_cases) (simp_all add: table_keys table_names)

lemma defaulted_fields_optional:
  assumes "(t, sh) \<in> set entities" and "(k, f) \<in> set sh"
    and "k \<in> {''featured'', ''color'', ''order''}"
  shows "zNullable f \<and> zOptional f"
  using assms
  by (cases rule: entity_cases) (auto simp: insert_schema_shapes)

text \<open>
  Claim C3, as amended. For each of the eight entities the insertable shape has the keys
  of the persisted shape except \<open>id\<close> and \<open>createdAt\<close>; it is a strict subset for every
  table but \<open>project_tags\<close>, whose two columns are both insertable. The defaulted columns
  \<open>featured\<close>, \<open>color\<close> and \<open>order\<close> stay insertable, as optional and nullable fields.
  A validated value never carries \<open>id\<close> or \<open>createdAt\<close>, whatever the candidate held.
\<close>

theorem insertable_keys:
  assumes "(t, sh) \<in> set entities"
  shows "set (map fst sh) = set (map fst (columns t)) - {''id'', ''createdAt''}
       \<and> (tableName t \<noteq> ''project_tags'' \<longrightarrow> set (map fst sh) \<subset> set (map fst (columns t)))
       \<and> (\<forall>k f. (k, f) \<in> set sh \<and> k \<in> {''featured'', ''color'', ''order''}
             \<longrightarrow> zNullable f \<and> zOptional f)
       \<and> (safeParse sh c = Inr v \<longrightarrow> v ''id'' = None \<and> v ''createdAt'' = None)"
proof -
  have keys: "set (map fst sh) = set (map fst (columns t)) - {''id'', ''createdAt''}"
    by (rule insertable_key_set [OF assms])
  have stripped: "v ''id'' = None \<and> v ''createdAt'' = None" if "safeParse sh c = Inr v"
  proof -
    from safeParse_Inr(2) [OF that] have v: "v = c |` set (map fst sh)" .
    have "''id'' \<notin> set (map fst sh)" and "''createdAt'' \<notin> set (map fst sh)"
      unfolding keys by simp_all
    then show ?thesis unfolding v by (simp add: restrict_map_def)
  qed
  have strict: "set (map fst sh) \<subset> set (map fst (columns t))"
    if "tableName t \<noteq> ''project_tags''"
  proof -
    from entity_has_id [OF assms that] have "''id'' \<in> set (map fst (columns t))" .
    moreover have "''id'' \<notin> set (map fst sh)" unfolding keys by simp
    moreover have "set (map fst sh) \<subseteq> set (map fst (columns t))"
      unfolding keys by (rule Diff_subset)
    ultimately show ?thesis by (rule_tac psubsetI) auto
  qed
  show ?thesis
  proof (intro conjI impI allI)
    show "set (map fst sh) = set (map fst (columns t)) - {''id'', ''createdAt''}" by (rule keys)
  next
    assume "tableName t \<noteq> ''project_tags''"
    then show "set (map fst sh) \<subset> set (map fst (columns t))" by (rule strict)
  next
    fix k f assume "(k, f) \<in> set sh \<and> k \<in> {''featured'', ''color'', ''order''}"
    then have "(k, f) \<in> set sh" and "k \<in> {''featured'', ''color'', ''order''}"
      by (rule conjunct1, rule conjunct2)
    from defaulted_fields_optional [OF assms this] show "zNullable f" by (rule conjunct1)
  next
    fix k f assume "(k, f) \<in> set sh \<and> k \<in> {''featured'', ''color'', ''order''}"
    then have "(k, f) \<in> set sh" and "k \<in> {''featured'', ''color'', ''order''}"
      by (rule conjunct1, rule conjunct2)
    from defaulted_fields_optional [OF assms this] show "zOptional f" by (rule conjunct2)
  next
    assume "safeParse sh c = Inr v"
    from stripped [OF this] show "v ''id'' = None" by (rule conjunct1)
  next
    assume "safeParse sh c = Inr v"
    from stripped [OF this] show "v ''createdAt'' = None" by (rule conjunct2)
  qed
qed

theorem insertable_keys_witness:
  "(projects, insertProjectSchema) \<in> set entities
   \<and> set (map fst insertProjectSchema) =
       {''title'', ''description'', ''image'', ''github'', ''liveUrl'', ''featured''}
   \<and> set (map fst insertProjectSchema) \<subset> set (map fst (columns projects))
   \<and> ''id'' \<notin> set (map fst insertProjectSchema)
   \<and> ''createdAt'' \<notin> set (map fst insertProjectSchema)
   \<and> (\<exists>v. safeParse insertProjectSchema
          [''id'' \<mapsto> VNumber 99, ''title'' \<mapsto> VString ''Portfolio'',
           ''description'' \<mapsto> VString ''site'',
           ''github'' \<mapsto> VString ''https://github.com/x/y''] = Inr v
        \<and> v ''id'' = None \<and> v ''title'' = Some (VString ''Portfolio''))"
proof -
  let ?c = "[''id'' \<mapsto> VNumber 99, ''title'' \<mapsto> VString ''Portfolio'',
           ''description'' \<mapsto> VString ''site'',
           ''github'' \<mapsto> VString ''https://github.com/x/y'']"
  let ?v = "?c |` set (map fst insertProjectSchema)"
  have e: "(projects, insertProjectSchema) \<in> set entities" by (simp add: entities_def)
  have n: "tableName projects \<noteq> ''project_tags''" by (simp add: table_names)
  have k: "set (map fst (columns projects)) - {''id'', ''createdAt''} =
      {''title'', ''description'', ''image'', ''github'', ''liveUrl'', ''featured''}"
    by (simp add: table_keys insert_Diff_if)
  note inst = insertable_keys [OF e, of ?c ?v]
  from inst have
    k': "set (map fst insertProjectSchema) = set (map fst (columns projects)) - {''id'', ''createdAt''}"
    and s: "tableName projects \<noteq> ''project_tags'' \<longrightarrow>
       set (map fst insertProjectSchema) \<subset> set (map fst (columns projects))"
    by (rule conjunct1, rule conjunct1 [OF conjunct2])
  from s n have s': "set (map fst insertProjectSchema) \<subset> set (map fst (columns projects))"
    by (rule mp)
  have i: "''id'' \<notin> set (map fst insertProjectSchema)" unfolding k' by simp
  have c: "''createdAt'' \<notin> set (map fst insertProjectSchema)" unfolding k' by simp
  have parsed: "safeParse insertProjectSchema ?c = Inr ?v"
  proof -
    have "\<forall>kf\<in>set insertProjectSchema. parseKey ?c kf = []"
      by (simp add: insert_schema_shapes parseKey_def)
    then have "concat (map (parseKey ?c) insertProjectSchema) = []" by simp
    then show ?thesis by (simp add: safeParse_def)
  qed
  from inst have "safeParse insertProjectSchema ?c = Inr ?v \<longrightarrow>
      ?v ''id'' = None \<and> ?v ''createdAt'' = None"
    by (rule conjunct2 [OF conjunct2 [OF conjunct2]])
  from mp [OF this parsed] have noid: "?v ''id'' = None" by (rule conjunct1)
  have title: "?v ''title'' = Some (VString ''Portfolio'')"
    by (simp add: insert_schema_shapes)
  have "\<exists>v. safeParse insertProjectSchema ?c = Inr v
      \<and> v ''id'' = None \<and> v ''title'' = Some (VString ''Portfolio'')"
    by (intro exI [of _ ?v] conjI parsed noid title)
  then show ?thesis by (intro conjI e k' [unfolded k] s' i c)
qed

text \<open>
  The claim as it was stated fails: \<open>featured\<close> has a server-side default and is a key of
  the Project insert schema, a candidate that sets it is accepted unchanged and the row
  keeps the caller's value; and the ProjectTag insert schema has every column of its table.
\<close>

theorem insertable_excludes_defaults_counterexample:
  "map_option colHasDefault (map_of (columns projects) ''featured'') = Some True
   \<and> ''featured'' \<in> set (map fst insertProjectSchema)
   \<and> safeParse insertProjectSchema
        [''title'' \<mapsto> VString ''Portfolio'', ''description'' \<mapsto> VString ''site'',
         ''github'' \<mapsto> VString ''https://github.com/x/y'', ''featured'' \<mapsto> VBoolean True]
       = Inr [''title'' \<mapsto> VString ''Portfolio'', ''description'' \<mapsto> VString ''site'',
         ''github'' \<mapsto> VString ''https://github.com/x/y'', ''featured'' \<mapsto> VBoolean True]
   \<and> persistedRow projects 0 1
        [''title'' \<mapsto> VString ''Portfolio'', ''description'' \<mapsto> VString ''site'',
         ''github'' \<mapsto> VString ''https://github.com/x/y'', ''featured'' \<mapsto> VBoolean True]
        ''featured'' = Some (VBoolean True)
   \<and> set (map fst insertProjectTagSchema) = set (map fst (columns projectTags))"
proof -
  let ?c = "[''title'' \<mapsto> VString ''Portfolio'', ''description'' \<mapsto> VString ''site'',
         ''github'' \<mapsto> VString ''https://github.com/x/y'', ''featured'' \<mapsto> VBoolean True]"
  have a: "map_option colHasDefault (map_of (columns projects) ''featured'') = Some True"
    by (simp add: projects_def builder_defs)
  have b: "''featured'' \<in> set (map fst insertProjectSchema)"
    by (simp add: insert_schema_shapes)
  have c: "safeParse insertProjectSchema ?c = Inr ?c"
  proof (rule safeParse_all_ok)
    show "\<forall>kf\<in>set insertProjectSchema. parseKey ?c kf = []"
      by (simp add: insert_schema_shapes parseKey_def)
    show "dom ?c \<subseteq> fst ` set insertProjectSchema"
      by (simp add: insert_schema_shapes)
  qed
  have d: "persistedRow projects 0 1 ?c ''featured'' = Some (VBoolean True)"
    by (simp add: persistedRow_def columnValue_def projects_def builder_defs)
  have e: "set (map fst insertProjectTagSchema) = set (map fst (columns projectTags))"
    by (simp add: insert_schema_shapes table_keys)
  show ?thesis by (intro conjI a b c d e)
qed

section \<open>The type of an experience is any string\<close>

text \<open>
  Claim C9. Whatever string \<open>s\<close> is, "work", "education" or anything else, a candidate
  Experience with string \<open>title\<close> and \<open>subtitle\<close>, \<open>type = s\<close>, and \<open>date\<close> and \<open>order\<close>
  absent, null or of their types passes validation, and the parsed value carries
  \<open>type = s\<close>.
\<close>

theorem experience_type_unconstrained:
  assumes "c ''title'' = Some (VString a)"
    and "c ''subtitle'' = Some (VString b)"
    and "c ''type'' = Some (VString s)"
    and "c ''date'' = None \<or> c ''date'' = Some VNull \<or> (\<exists>d. c ''date'' = Some (VString d))"
    and "c ''order'' = None \<or> c ''order'' = Some VNull
         \<or> (\<exists>n. c ''order'' = Some (VNumber n) \<and> - 2147483648 \<le> n \<and> n \<le> 2147483647)"
  shows "\<exists>v. safeParse insertExperienceSchema c = Inr v \<and> v ''type'' = Some (VString s)"
proof -
  have t: "parseKey c (''title'', \<lparr>zType = ZString, zNullable = False, zOptional = False\<rparr>) = []"
    using assms(1) by (simp add: parseKey_def)
  have u: "parseKey c (''subtitle'', \<lparr>zType = ZString, zNullable = False, zOptional = False\<rparr>) = []"
    using assms(2) by (simp add: parseKey_def)
  have y: "parseKey c (''type'', \<lparr>zType = ZString, zNullable = False, zOptional = False\<rparr>) = []"
    using assms(3) by (simp add: parseKey_def)
  have d: "parseKey c (''date'', \<lparr>zType = ZString, zNullable = True, zOptional = True\<rparr>) = []"
    using assms(4) by (elim disjE exE) (simp_all add: parseKey_def)
  have or: "parseKey c (''order'', \<lparr>zType = ZInt32, zNullable = True, zOptional = True\<rparr>) = []"
    using assms(5) by (elim disjE exE conjE) (simp_all add: parseKey_def)
  have "safeParse insertExperienceSchema c = Inr (c |` set (map fst insertExperienceSchema))"
    by (simp add: safeParse_def insert_schema_shapes t u y d or)
  moreover have "(c |` set (map fst insertExperienceSchema)) ''type'' = Some (VString s)"
    using assms(3) by (simp add: insert_schema_shapes)
  ultimately show ?thesis by (intro exI conjI)
qed

theorem experience_type_unconstrained_witness:
  "\<exists>v. safeParse insertExperienceSchema
      [''title'' \<mapsto> VString ''Gardener'', ''subtitle'' \<mapsto> VString ''Kew'',
       ''type'' \<mapsto> VString ''hobby''] = Inr v
     \<and> v ''type'' = Some (VString ''hobby'')"
  by (rule experience_type_unconstrained [where a = "''Gardener''" and b = "''Kew''"]) simp_all

section \<open>Accepted and rejected inserts\<close>

lemma insertRow_cases:
  obtains (rejected) e where "violations s t (persistedRow t now n v) \<noteq> []"
      and "insertRow now n t v s = (Inl e, s)"
      and "e = hd (violations s t (persistedRow t now n v))"
    | (accepted) "violations s t (persistedRow t now n v) = []"
      and "insertRow now n t v s =
        (Inr (persistedRow t now n v),
         s(tableName t := s (tableName t) @ [persistedRow t now n v]))"
  by (cases "violations s t (persistedRow t now n v)") (auto simp: insertRow_def Let_def)

lemma insertRow_accepted:
  assumes "insertRow now n t v s = (Inr r, s')"
  shows "r = persistedRow t now n v" and "violations s t r = []"
    and "s' = s(tableName t := s (tableName t) @ [r])"
  using assms by (cases rule: insertRow_cases [of s t now n v]; simp)+

lemma insertRow_rejected:
  assumes "insertRow now n t v s = (Inl e, s')"
  shows "s' = s" and "violations s t (persistedRow t now n v) \<noteq> []"
  using assms by (cases rule: insertRow_cases [of s t now n v]; simp)+

lemma violations_Nil:
  "violations s t row = [] \<longleftrightarrow>
     notNullViolations t row = [] \<and> uniqueViolations t (s (tableName t)) row = []
     \<and> compositeKeyViolations t (s (tableName t)) row = [] \<and> foreignKeyViolations s t row = []"
  by (simp add: violations_def)

lemma concat_map_Nil: "concat (map g xs) = [] \<Longrightarrow> x \<in> set xs \<Longrightarrow> g x = []"
  by auto

lemma notNull_checked:
  assumes "notNullViolations t row = []" and "(k, c) \<in> set (columns t)" and "colNotNull c"
  shows "row k \<noteq> Some VNull"
  using concat_map_Nil [OF assms(1) [unfolded notNullViolations_def] assms(2)] assms(3)
  by (simp split: if_splits)

lemma unique_checked:
  assumes "uniqueViolations t rows row = []" and "(k, c) \<in> set (columns t)"
    and "colUnique c \<or> colPrimary c" and "row k \<noteq> Some VNull"
  shows "\<forall>r \<in> set rows. r k \<noteq> row k"
  using concat_map_Nil [OF assms(1) [unfolded uniqueViolations_def] assms(2)] assms(3,4)
  by (simp split: if_splits)

lemma compositeKey_checked:
  assumes "compositeKeyViolations t rows row = []" and "compositeKey t \<noteq> []"
  shows "\<forall>r \<in> set rows. \<exists>k \<in> set (compositeKey t). r k \<noteq> row k"
  using assms by (auto simp: compositeKeyViolations_def split: if_splits)


lemma schemaTables_cases:
  assumes "t \<in> set schemaTables"
  obtains "t = messages" | "t = users" | "t = projects" | "t = tags" | "t = projectTags"
    | "t = skills" | "t = experiences" | "t = experienceDetails"
  using assms unfolding schemaTables_def entities_def by auto

lemma schemaTables_name_inj:
  assumes "t \<in> set schemaTables" and "t' \<in> set schemaTables" and "tableName t = tableName t'"
  shows "t = t'"
  using assms(1)
proof (cases rule: schemaTables_cases)
  case 1 with assms(2,3) show ?thesis by (cases rule: schemaTables_cases) (simp_all add: table_names)
next
  case 2 with assms(2,3) show ?thesis by (cases rule: schemaTables_cases) (simp_all add: table_names)
next
  case 3 with assms(2,3) show ?thesis by (cases rule: schemaTables_cases) (simp_all add: table_names)
next
  case 4 with assms(2,3) show ?thesis by (cases rule: schemaTables_cases) (simp_all add: table_names)
next
  case 5 with assms(2,3) show ?thesis by (cases rule: schemaTables_cases) (simp_all add: table_names)
next
  case 6 with assms(2,3) show ?thesis by (cases rule: schemaTables_cases) (simp_all add: table_names)
next
  case 7 with assms(2,3) show ?thesis by (cases rule: schemaTables_cases) (simp_all add: table_names)
next
  case 8 with assms(2,3) show ?thesis by (cases rule: schemaTables_cases) (simp_all add: table_names)
qed

lemma schemaTables_mem:
  "messages \<in> set schemaTables" "users \<in> set schemaTables" "projects \<in> set schemaTables"
  "tags \<in> set schemaTables" "projectTags \<in> set schemaTables" "skills \<in> set schemaTables"
  "experiences \<in> set schemaTables" "experienceDetails \<in> set schemaTables"
  by (simp_all add: schemaTables_def entities_def)

text \<open>Induction over the reachable stores, one accepted row at a time.\<close>

lemma reachable_rows_induct [consumes 1, case_names empty row]:
  assumes "reachable s"
    and "P emptyStore"
    and "\<And>s t now n v. reachable s \<Longrightarrow> P s \<Longrightarrow> t \<in> set schemaTables \<Longrightarrow>
           violations s t (persistedRow t now n v) = [] \<Longrightarrow>
           P (s(tableName t := s (tableName t) @ [persistedRow t now n v]))"
  shows "P s"
  using assms(1)
proof (induction rule: reachable.induct)
  case reachable_empty
  show ?case by (rule assms(2))
next
  case (reachable_insert s t now n v)
  show ?case
  proof (cases rule: insertRow_cases [of s t now n v])
    case (rejected e)
    then show ?thesis using reachable_insert.IH by simp
  next
    case accepted
    have "snd (insertRow now n t v s) =
        s(tableName t := s (tableName t) @ [persistedRow t now n v])"
      by (simp only: accepted(2) snd_conv)
    then show ?thesis
      using assms(3) [OF reachable_insert.hyps(1) reachable_insert.IH reachable_insert.hyps(2)
          accepted(1)]
      by (simp only:)
  qed
qed

lemma other_table_name:
  assumes "t \<in> set schemaTables" and "t' \<in> set schemaTables" and "t \<noteq> t'"
  shows "tableName t' \<noteq> tableName t"
  using schemaTables_name_inj [OF assms(1,2)] assms(3) by auto

lemma unique_column_step:
  assumes "distinct (map (\<lambda>r. r k) (s (tableName t)))"
    and "violations s t row = []"
    and "(k, c) \<in> set (columns t)" and "colNotNull c" and "colUnique c \<or> colPrimary c"
  shows "distinct (map (\<lambda>r. r k) (s (tableName t) @ [row]))"
proof -
  from assms(2) have nn: "notNullViolations t row = []"
    and un: "uniqueViolations t (s (tableName t)) row = []"
    by (simp_all add: violations_Nil)
  from notNull_checked [OF nn assms(3,4)] have "row k \<noteq> Some VNull" .
  from unique_checked [OF un assms(3,5) this] have "\<forall>r \<in> set (s (tableName t)). r k \<noteq> row k" .
  with assms(1) show ?thesis by auto
qed

lemma unique_column_invariant:
  assumes "reachable s" and "t' \<in> set schemaTables"
    and "(k, c) \<in> set (columns t')" and "colNotNull c" and "colUnique c \<or> colPrimary c"
  shows "distinct (map (\<lambda>r. r k) (s (tableName t')))"
  using assms(1)
proof (induction rule: reachable_rows_induct)
  case empty
  show ?case by (simp add: emptyStore_def)
next
  case (row s t now n v)
  have ih: "distinct (map (\<lambda>r. r k) (s (tableName t')))" by fact
  have mem: "t \<in> set schemaTables" by fact
  have viol: "violations s t (persistedRow t now n v) = []" by fact
  show ?case
  proof (cases "t = t'")
    case True
    with unique_column_step [OF _ viol _ assms(4,5), of k] ih assms(3)
    show ?thesis by simp
  next
    case False
    from other_table_name [OF mem assms(2) False] ih show ?thesis by simp
  qed
qed

lemma concat_map_mem: "x \<in> set xs \<Longrightarrow> y \<in> set (g x) \<Longrightarrow> y \<in> set (concat (map g xs))"
  by auto

lemma notNull_violation:
  assumes "(k, c) \<in> set (columns t)" and "colNotNull c" and "row k = Some VNull"
  shows "NotNullViolation (tableName t) k \<in> set (notNullViolations t row)"
  unfolding notNullViolations_def
  by (rule concat_map_mem [OF assms(1)]) (simp add: assms(2,3))

lemma unique_violation:
  assumes "(k, c) \<in> set (columns t)" and "colUnique c \<or> colPrimary c"
    and "row k \<noteq> Some VNull" and "r \<in> set rows" and "r k = row k"
  shows "UniqueViolation (tableName t) [k] \<in> set (uniqueViolations t rows row)"
  unfolding uniqueViolations_def
  by (rule concat_map_mem [OF assms(1)]) (use assms(2-5) in auto)


lemma violation_rejected:
  assumes "e \<in> set (violations s t (persistedRow t now n v))"
  shows "\<exists>e'. insertRow now n t v s = (Inl e', s)"
proof (cases rule: insertRow_cases [of s t now n v])
  case (rejected e')
  then show ?thesis by blast
next
  case accepted
  with assms show ?thesis by simp
qed

lemma persistedRow_supplied:
  assumes "map_of (columns t) k = Some c" and "v k = Some x"
  shows "persistedRow t now n v k = Some x"
  using assms by (simp add: persistedRow_def columnValue_def)

lemma persistedRow_column:
  assumes "map_of (columns t) k = Some c"
  shows "persistedRow t now n v k = Some (columnValue now n c (v k))"
  using assms by (simp add: persistedRow_def)

lemma duplicate_unique_rejected:
  assumes col: "map_of (columns t) k = Some c"
    and uq: "colUnique c \<or> colPrimary c" and nn: "colNotNull c"
    and r: "r \<in> set (s (tableName t))" and rk: "r k = Some u" and vk: "v k = Some u"
  shows "\<exists>e. insertRow now n t v s = (Inl e, s)"
    and "u \<noteq> VNull \<Longrightarrow>
      UniqueViolation (tableName t) [k] \<in> set (violations s t (persistedRow t now n v))"
proof -
  let ?row = "persistedRow t now n v"
  have mem: "(k, c) \<in> set (columns t)" using col by (rule map_of_SomeD)
  have row: "?row k = Some u" using col vk by (rule persistedRow_supplied)
  have uv: "UniqueViolation (tableName t) [k] \<in> set (violations s t ?row)" if "u \<noteq> VNull"
  proof -
    have "UniqueViolation (tableName t) [k] \<in> set (uniqueViolations t (s (tableName t)) ?row)"
      by (rule unique_violation [OF mem uq _ r]) (simp_all add: row rk that)
    then show ?thesis by (simp add: violations_def)
  qed
  show "\<exists>e. insertRow now n t v s = (Inl e, s)"
  proof (cases "u = VNull")
    case True
    have "NotNullViolation (tableName t) k \<in> set (notNullViolations t ?row)"
      by (rule notNull_violation [OF mem nn]) (simp add: row True)
    then have "NotNullViolation (tableName t) k \<in> set (violations s t ?row)"
      by (simp add: violations_def)
    then show ?thesis by (rule violation_rejected)
  next
    case False
    from uv [OF False] show ?thesis by (rule violation_rejected)
  qed
  show "u \<noteq> VNull \<Longrightarrow>
      UniqueViolation (tableName t) [k] \<in> set (violations s t (persistedRow t now n v))"
    by (rule uv)
qed

lemma column_facts:
  "map_of (columns users) ''username'' = Some (unique (notNull (pgText ''username'')))"
  "map_of (columns tags) ''name'' = Some (unique (notNull (pgText ''name'')))"
  "map_of (columns projectTags) ''projectId'' =
     Some (references ''projects'' ''id'' (notNull (integer ''project_id'')))"
  "map_of (columns projectTags) ''tagId'' =
     Some (references ''tags'' ''id'' (notNull (integer ''tag_id'')))"
  "map_of (columns experienceDetails) ''experienceId'' =
     Some (references ''experiences'' ''id'' (notNull (integer ''experience_id'')))"
  "map_of (columns projects) ''featured'' = Some (default_to (VBoolean False) (boolean ''featured''))"
  "map_of (columns tags) ''color'' = Some (default_to (VString ''gray'') (pgText ''color''))"
  "map_of (columns skills) ''order'' = Some (default_to (VNumber 0) (integer ''order''))"
  "map_of (columns experiences) ''order'' = Some (default_to (VNumber 0) (integer ''order''))"
  "map_of (columns experienceDetails) ''order'' = Some (default_to (VNumber 0) (integer ''order''))"
  by (simp_all add: table_defs pgTable_def pgTableWithKey_def)

lemma builder_flags:
  "colNotNull (unique (notNull c))" "colUnique (unique c)"
  "colNotNull (references tn rk (notNull c))"
  "colReferences (references tn rk c) = Some (tn, rk)"
  "colNotNull (default_to d c) = colNotNull c"
  "colDefault (default_to d c) = Some (DefaultValue d)"
  "colType (default_to d c) = colType c"
  "colNotNull (mkColumn n ty) = False"
  by (simp_all add: builder_defs)

section \<open>Unique user names and tag names\<close>

text \<open>
  Claim C6. In every reachable store no two users have the same \<open>username\<close> and no two
  tags the same \<open>name\<close>. Inserting a user whose \<open>username\<close> is already that of a stored
  user is rejected with a constraint error and the store stays as it was; when the name
  is not null, the unique violation of \<open>username\<close> is among the violations found. The
  same holds for tags and \<open>name\<close>.
\<close>

theorem unique_names:
  "(reachable s \<longrightarrow>
      distinct (map (\<lambda>r. r ''username'') (s ''users''))
      \<and> distinct (map (\<lambda>r. r ''name'') (s ''tags'')))
   \<and> (r \<in> set (s ''users'') \<and> r ''username'' = Some u \<and> v ''username'' = Some u \<longrightarrow>
        (\<exists>e. insertRow now n users v s = (Inl e, s))
        \<and> (u \<noteq> VNull \<longrightarrow> UniqueViolation ''users'' [''username'']
              \<in> set (violations s users (persistedRow users now n v))))
   \<and> (r \<in> set (s ''tags'') \<and> r ''name'' = Some u \<and> v ''name'' = Some u \<longrightarrow>
        (\<exists>e. insertRow now n tags v s = (Inl e, s))
        \<and> (u \<noteq> VNull \<longrightarrow> UniqueViolation ''tags'' [''name'']
              \<in> set (violations s tags (persistedRow tags now n v))))"
proof (intro conjI impI)
  assume "reachable s"
  from unique_column_invariant [OF this schemaTables_mem(2) map_of_SomeD [OF column_facts(1)]]
  show "distinct (map (\<lambda>r. r ''username'') (s ''users''))"
    by (simp add: builder_flags table_names)
next
  assume "reachable s"
  from unique_column_invariant [OF this schemaTables_mem(4) map_of_SomeD [OF column_facts(2)]]
  show "distinct (map (\<lambda>r. r ''name'') (s ''tags''))"
    by (simp add: builder_flags table_names)
next
  assume a: "r \<in> set (s ''users'') \<and> r ''username'' = Some u \<and> v ''username'' = Some u"
  from duplicate_unique_rejected(1) [OF column_facts(1), of r s u v now n] a
  show "\<exists>e. insertRow now n users v s = (Inl e, s)"
    by (simp add: builder_flags table_names)
next
  assume a: "r \<in> set (s ''users'') \<and> r ''username'' = Some u \<and> v ''username'' = Some u"
    and "u \<noteq> VNull"
  with duplicate_unique_rejected(2) [OF column_facts(1), of r s u v now n]
  show "UniqueViolation ''users'' [''username'']
      \<in> set (violations s users (persistedRow users now n v))"
    by (simp add: builder_flags table_names)
next
  assume a: "r \<in> set (s ''tags'') \<and> r ''name'' = Some u \<and> v ''name'' = Some u"
  from duplicate_unique_rejected(1) [OF column_facts(2), of r s u v now n] a
  show "\<exists>e. insertRow now n tags v s = (Inl e, s)"
    by (simp add: builder_flags table_names)
next
  assume a: "r \<in> set (s ''tags'') \<and> r ''name'' = Some u \<and> v ''name'' = Some u"
    and "u \<noteq> VNull"
  with duplicate_unique_rejected(2) [OF column_facts(2), of r s u v now n]
  show "UniqueViolation ''tags'' [''name'']
      \<in> set (violations s tags (persistedRow tags now n v))"
    by (simp add: builder_flags table_names)
qed

lemmas violation_defs = violations_def notNullViolations_def uniqueViolations_def
  compositeKeyViolations_def foreignKeyViolations_def

lemma first_user_accepted:
  "insertRow now n users [''username'' \<mapsto> VString u, ''password'' \<mapsto> VString p] emptyStore =
     (Inr (persistedRow users now n [''username'' \<mapsto> VString u, ''password'' \<mapsto> VString p]),
      emptyStore(''users'' :=
        [persistedRow users now n [''username'' \<mapsto> VString u, ''password'' \<mapsto> VString p]]))"
proof (cases rule: insertRow_cases
    [of emptyStore users now n "[''username'' \<mapsto> VString u, ''password'' \<mapsto> VString p]"])
  case (rejected e)
  then show ?thesis
    by (simp add: violation_defs emptyStore_def persistedRow_def columnValue_def users_def
        builder_defs)
next
  case accepted
  then show ?thesis by (simp add: table_names emptyStore_def)
qed

theorem unique_names_witness:
  "reachable (snd (insertRow 0 1 users
       [''username'' \<mapsto> VString ''melvin'', ''password'' \<mapsto> VString ''a''] emptyStore))
   \<and> distinct (map (\<lambda>r. r ''username'')
       (snd (insertRow 0 1 users
          [''username'' \<mapsto> VString ''melvin'', ''password'' \<mapsto> VString ''a''] emptyStore)
        ''users''))
   \<and> (\<exists>e. insertRow 5 2 users
          [''username'' \<mapsto> VString ''melvin'', ''password'' \<mapsto> VString ''b'']
          (snd (insertRow 0 1 users
             [''username'' \<mapsto> VString ''melvin'', ''password'' \<mapsto> VString ''a''] emptyStore))
        = (Inl e,
           snd (insertRow 0 1 users
             [''username'' \<mapsto> VString ''melvin'', ''password'' \<mapsto> VString ''a''] emptyStore)))"
proof -
  let ?v = "[''username'' \<mapsto> VString ''melvin'', ''password'' \<mapsto> VString ''a'']"
  let ?w = "[''username'' \<mapsto> VString ''melvin'', ''password'' \<mapsto> VString ''b'']"
  let ?s = "snd (insertRow 0 1 users ?v emptyStore)"
  let ?r = "persistedRow users 0 1 ?v"
  have reach: "reachable ?s"
    by (rule reachable_insert [OF reachable_empty schemaTables_mem(2)])
  have rows: "?s ''users'' = [?r]" by (simp add: first_user_accepted)
  have r: "?r \<in> set (?s ''users'')" unfolding rows by simp
  have ru: "?r ''username'' = Some (VString ''melvin'')"
    by (simp add: persistedRow_supplied [OF column_facts(1)])
  have wu: "?w ''username'' = Some (VString ''melvin'')" by simp
  note inst = unique_names [of ?s ?r "VString ''melvin''" ?w 5 2]
  from inst have inv: "reachable ?s \<longrightarrow>
      distinct (map (\<lambda>r. r ''username'') (?s ''users''))
      \<and> distinct (map (\<lambda>r. r ''name'') (?s ''tags''))"
    by (rule conjunct1)
  from mp [OF inv reach] have d: "distinct (map (\<lambda>r. r ''username'') (?s ''users''))"
    by (rule conjunct1)
  have dup: "?r \<in> set (?s ''users'') \<and> ?r ''username'' = Some (VString ''melvin'')
      \<and> ?w ''username'' = Some (VString ''melvin'')"
    by (intro conjI r ru wu)
  from inst have "?r \<in> set (?s ''users'') \<and> ?r ''username'' = Some (VString ''melvin'')
      \<and> ?w ''username'' = Some (VString ''melvin'') \<longrightarrow>
      (\<exists>e. insertRow 5 2 users ?w ?s = (Inl e, ?s))
      \<and> (VString ''melvin'' \<noteq> VNull \<longrightarrow> UniqueViolation ''users'' [''username'']
              \<in> set (violations ?s users (persistedRow users 5 2 ?w)))"
    by (rule conjunct1 [OF conjunct2])
  from mp [OF this dup] have "\<exists>e. insertRow 5 2 users ?w ?s = (Inl e, ?s)"
    by (rule conjunct1)
  with reach d show ?thesis by (intro conjI)
qed

section \<open>The composite key of the junction table\<close>

lemma projectTags_flags:
  "compositeKey projectTags = [''projectId'', ''tagId'']"
  "map fst (columns projectTags) = [''projectId'', ''tagId'']"
  "list_all (\<lambda>(k, c). \<not> colPrimary c \<and> \<not> colUnique c \<and> colType c \<noteq> PgSerial) (columns projectTags)"
  by (simp_all add: projectTags_def builder_defs)

lemma composite_key_step:
  assumes "distinct (map (\<lambda>r. (r ''projectId'', r ''tagId'')) (s ''project_tags''))"
    and "violations s projectTags row = []"
  shows "distinct (map (\<lambda>r. (r ''projectId'', r ''tagId'')) (s ''project_tags'' @ [row]))"
proof -
  from assms(2) have "compositeKeyViolations projectTags (s ''project_tags'') row = []"
    by (simp add: violations_Nil table_names)
  from compositeKey_checked [OF this]
  have "\<forall>r \<in> set (s ''project_tags''). r ''projectId'' \<noteq> row ''projectId'' \<or> r ''tagId'' \<noteq> row ''tagId''"
    by (simp add: projectTags_flags)
  with assms(1) show ?thesis by auto
qed

lemma composite_key_invariant:
  assumes "reachable s"
  shows "distinct (map (\<lambda>r. (r ''projectId'', r ''tagId'')) (s ''project_tags''))"
  using assms
proof (induction rule: reachable_rows_induct)
  case empty
  show ?case by (simp add: emptyStore_def)
next
  case (row s t now n v)
  have ih: "distinct (map (\<lambda>r. (r ''projectId'', r ''tagId'')) (s ''project_tags''))" by fact
  have mem: "t \<in> set schemaTables" by fact
  have viol: "violations s t (persistedRow t now n v) = []" by fact
  show ?case
  proof (cases "t = projectTags")
    case True
    with composite_key_step [of s "persistedRow projectTags now n v"] ih viol show ?thesis
      by (simp add: table_names)
  next
    case False
    from other_table_name [OF mem schemaTables_mem(5) False] ih show ?thesis
      by (simp add: table_names)
  qed
qed

lemma duplicate_pair_violation:
  assumes r: "r \<in> set (s ''project_tags'')"
    and rp: "r ''projectId'' = Some p" and rq: "r ''tagId'' = Some q"
    and vp: "v ''projectId'' = Some p" and vq: "v ''tagId'' = Some q"
  shows "compositeKeyViolations projectTags (s ''project_tags'') (persistedRow projectTags now n v)
      = [UniqueViolation ''project_tags'' [''projectId'', ''tagId'']]"
proof -
  let ?row = "persistedRow projectTags now n v"
  have "?row ''projectId'' = Some p" using column_facts(3) vp by (rule persistedRow_supplied)
  moreover have "?row ''tagId'' = Some q" using column_facts(4) vq by (rule persistedRow_supplied)
  ultimately have "\<exists>r \<in> set (s ''project_tags''). \<forall>k \<in> set (compositeKey projectTags). r k = ?row k"
    using r rp rq by (auto simp: projectTags_flags)
  then show ?thesis by (simp add: compositeKeyViolations_def projectTags_flags table_names)
qed

lemma duplicate_pair_rejected:
  assumes r: "r \<in> set (s ''project_tags'')"
    and rp: "r ''projectId'' = Some p" and rq: "r ''tagId'' = Some q"
    and vp: "v ''projectId'' = Some p" and vq: "v ''tagId'' = Some q"
  shows "\<exists>e. insertRow now n projectTags v s = (Inl e, s)"
proof -
  have "UniqueViolation ''project_tags'' [''projectId'', ''tagId'']
      \<in> set (violations s projectTags (persistedRow projectTags now n v))"
    using duplicate_pair_violation [of r s p q v now n] assms
    by (simp add: violations_def table_names)
  then show ?thesis by (rule violation_rejected)
qed

lemma projectTags_columns:
  "columns projectTags =
     [(''projectId'', references ''projects'' ''id'' (notNull (integer ''project_id''))),
      (''tagId'', references ''tags'' ''id'' (notNull (integer ''tag_id'')))]"
  by (simp add: projectTags_def pgTableWithKey_def)

lemma projectTags_notNull_ok:
  assumes "v ''projectId'' = Some p" and "v ''tagId'' = Some q" and "p \<noteq> VNull" and "q \<noteq> VNull"
  shows "notNullViolations projectTags (persistedRow projectTags now n v) = []"
proof -
  let ?row = "persistedRow projectTags now n v"
  have p: "?row ''projectId'' = Some p" using column_facts(3) assms(1) by (rule persistedRow_supplied)
  have q: "?row ''tagId'' = Some q" using column_facts(4) assms(2) by (rule persistedRow_supplied)
  show ?thesis
    using assms(3,4) by (simp add: notNullViolations_def projectTags_columns p q)
qed

lemma projectTags_unique_ok: "uniqueViolations projectTags rows row = []"
  by (simp add: uniqueViolations_def projectTags_columns builder_defs)

lemma duplicate_pair_error:
  assumes r: "r \<in> set (s ''project_tags'')"
    and rp: "r ''projectId'' = Some p" and rq: "r ''tagId'' = Some q"
    and vp: "v ''projectId'' = Some p" and vq: "v ''tagId'' = Some q"
    and nn: "p \<noteq> VNull" "q \<noteq> VNull"
  shows "insertRow now n projectTags v s
      = (Inl (UniqueViolation ''project_tags'' [''projectId'', ''tagId'']), s)"
proof -
  have "violations s projectTags (persistedRow projectTags now n v)
      = UniqueViolation ''project_tags'' [''projectId'', ''tagId'']
          # foreignKeyViolations s projectTags (persistedRow projectTags now n v)"
    using duplicate_pair_violation [of r s p q v now n] r rp rq vp vq
      projectTags_notNull_ok [of v p q now n] nn
    by (simp add: violations_def table_names projectTags_unique_ok)
  then show ?thesis by (simp add: insertRow_def)
qed

text \<open>
  Claim C5. The \<open>project_tags\<close> table has the two columns \<open>projectId\<close> and \<open>tagId\<close> and
  no identity column of its own (no serial, primary or unique column); its primary key
  is the pair. In every reachable store no two of its rows have the same pair. Inserting
  a pair that a stored row already has is rejected and the store stays as it was; when
  both ids are not null the error is the unique violation of the pair.
\<close>

theorem project_tag_pairs_unique:
  "compositeKey projectTags = [''projectId'', ''tagId'']
   \<and> map fst (columns projectTags) = [''projectId'', ''tagId'']
   \<and> list_all (\<lambda>(k, c). \<not> colPrimary c \<and> \<not> colUnique c \<and> colType c \<noteq> PgSerial)
        (columns projectTags)
   \<and> (reachable s \<longrightarrow> distinct (map (\<lambda>r. (r ''projectId'', r ''tagId'')) (s ''project_tags'')))
   \<and> (r \<in> set (s ''project_tags'') \<and> r ''projectId'' = Some p \<and> r ''tagId'' = Some q
        \<and> v ''projectId'' = Some p \<and> v ''tagId'' = Some q \<longrightarrow>
        (\<exists>e. insertRow now n projectTags v s = (Inl e, s))
        \<and> (p \<noteq> VNull \<and> q \<noteq> VNull \<longrightarrow>
             insertRow now n projectTags v s
               = (Inl (UniqueViolation ''project_tags'' [''projectId'', ''tagId'']), s)))"
proof (intro conjI impI)
  show "compositeKey projectTags = [''projectId'', ''tagId'']" by (rule projectTags_flags)
  show "map fst (columns projectTags) = [''projectId'', ''tagId'']" by (rule projectTags_flags)
  show "list_all (\<lambda>(k, c). \<not> colPrimary c \<and> \<not> colUnique c \<and> colType c \<noteq> PgSerial)
        (columns projectTags)" by (rule projectTags_flags)
next
  assume "reachable s"
  then show "distinct (map (\<lambda>r. (r ''projectId'', r ''tagId'')) (s ''project_tags''))"
    by (rule composite_key_invariant)
next
  assume a: "r \<in> set (s ''project_tags'') \<and> r ''projectId'' = Some p \<and> r ''tagId'' = Some q
        \<and> v ''projectId'' = Some p \<and> v ''tagId'' = Some q"
  then show "\<exists>e. insertRow now n projectTags v s = (Inl e, s)"
    using duplicate_pair_rejected [of r s p q v now n] by simp
next
  assume a: "r \<in> set (s ''project_tags'') \<and> r ''projectId'' = Some p \<and> r ''tagId'' = Some q
        \<and> v ''projectId'' = Some p \<and> v ''tagId'' = Some q"
    and b: "p \<noteq> VNull \<and> q \<noteq> VNull"
  from a b show "insertRow now n projectTags v s
      = (Inl (UniqueViolation ''project_tags'' [''projectId'', ''tagId'']), s)"
    using duplicate_pair_error [of r s p q v now n] by simp
qed

lemma insertRow_accepted_eq:
  assumes "violations s t (persistedRow t now n v) = []"
  shows "insertRow now n t v s =
     (Inr (persistedRow t now n v), s(tableName t := s (tableName t) @ [persistedRow t now n v]))"
  using assms by (simp add: insertRow_def Let_def)

text \<open>A store with one project, one tag and the pair that joins them.\<close>

lemma example_store:
  "snd (insertRow 0 0 projectTags [''projectId'' \<mapsto> VNumber 1, ''tagId'' \<mapsto> VNumber 1]
     (snd (insertRow 0 1 tags [''name'' \<mapsto> VString ''TypeScript'']
       (snd (insertRow 0 1 projects
          [''title'' \<mapsto> VString ''Portfolio'', ''description'' \<mapsto> VString ''site'',
           ''github'' \<mapsto> VString ''https://github.com/x/y''] emptyStore)))))
   = ((emptyStore
        (''projects'' := [persistedRow projects 0 1
          [''title'' \<mapsto> VString ''Portfolio'', ''description'' \<mapsto> VString ''site'',
           ''github'' \<mapsto> VString ''https://github.com/x/y'']]))
        (''tags'' := [persistedRow tags 0 1 [''name'' \<mapsto> VString ''TypeScript'']]))
        (''project_tags'' := [persistedRow projectTags 0 0
          [''projectId'' \<mapsto> VNumber 1, ''tagId'' \<mapsto> VNumber 1]])"
  (is "?s3 = _")
  and example_ids:
  "persistedRow projects 0 1
      [''title'' \<mapsto> VString ''Portfolio'', ''description'' \<mapsto> VString ''site'',
       ''github'' \<mapsto> VString ''https://github.com/x/y''] ''id'' = Some (VNumber 1)"
  "persistedRow tags 0 1 [''name'' \<mapsto> VString ''TypeScript''] ''id'' = Some (VNumber 1)"
  "persistedRow projectTags 0 0 [''projectId'' \<mapsto> VNumber 1, ''tagId'' \<mapsto> VNumber 1]
      ''projectId'' = Some (VNumber 1)"
  "persistedRow projectTags 0 0 [''projectId'' \<mapsto> VNumber 1, ''tagId'' \<mapsto> VNumber 1]
      ''tagId'' = Some (VNumber 1)"
proof -
  let ?vp = "[''title'' \<mapsto> VString ''Portfolio'', ''description'' \<mapsto> VString ''site'',
             ''github'' \<mapsto> VString ''https://github.com/x/y'']"
  let ?vt = "[''name'' \<mapsto> VString ''TypeScript'']"
  let ?vj = "[''projectId'' \<mapsto> VNumber 1, ''tagId'' \<mapsto> VNumber 1]"
  let ?s1 = "snd (insertRow 0 1 projects ?vp emptyStore)"
  let ?s2 = "snd (insertRow 0 1 tags ?vt ?s1)"
  let ?rp = "persistedRow projects 0 1 ?vp"
  let ?rt = "persistedRow tags 0 1 ?vt"
  let ?rj = "persistedRow projectTags 0 0 ?vj"
  have s1: "?s1 = emptyStore(''projects'' := [?rp])"
  proof -
    have "violations emptyStore projects ?rp = []"
      by (simp add: violation_defs emptyStore_def table_names)
        (simp add: persistedRow_def columnValue_def projects_def builder_defs)
    from insertRow_accepted_eq [OF this] show ?thesis by (simp add: table_names emptyStore_def)
  qed
  have s2: "?s2 = (emptyStore(''projects'' := [?rp]))(''tags'' := [?rt])"
  proof -
    have "violations (emptyStore(''projects'' := [?rp])) tags ?rt = []"
      by (simp add: violation_defs emptyStore_def table_names)
        (simp add: persistedRow_def columnValue_def tags_def builder_defs)
    from insertRow_accepted_eq [OF this] show ?thesis
      unfolding s1 by (simp add: table_names emptyStore_def)
  qed
  show idp: "?rp ''id'' = Some (VNumber 1)"
    by (simp add: persistedRow_def columnValue_def projects_def builder_defs)
  show idt: "?rt ''id'' = Some (VNumber 1)"
    by (simp add: persistedRow_def columnValue_def tags_def builder_defs)
  show jp: "?rj ''projectId'' = Some (VNumber 1)"
    by (simp add: persistedRow_supplied [OF column_facts(3)])
  show jt: "?rj ''tagId'' = Some (VNumber 1)"
    by (simp add: persistedRow_supplied [OF column_facts(4)])
  have "violations ((emptyStore(''projects'' := [?rp]))(''tags'' := [?rt])) projectTags ?rj = []"
    by (simp add: violation_defs emptyStore_def table_names projectTags_columns builder_defs
        projectTags_flags idp idt jp jt)
  from insertRow_accepted_eq [OF this]
  show "?s3 = ((emptyStore(''projects'' := [?rp]))(''tags'' := [?rt]))(''project_tags'' := [?rj])"
    unfolding s2 by (simp add: table_names emptyStore_def)
qed

theorem project_tag_pairs_unique_witness:
  "reachable
     (snd (insertRow 0 0 projectTags [''projectId'' \<mapsto> VNumber 1, ''tagId'' \<mapsto> VNumber 1]
       (snd (insertRow 0 1 tags [''name'' \<mapsto> VString ''TypeScript'']
         (snd (insertRow 0 1 projects
            [''title'' \<mapsto> VString ''Portfolio'', ''description'' \<mapsto> VString ''site'',
             ''github'' \<mapsto> VString ''https://github.com/x/y''] emptyStore))))))
   \<and> distinct (map (\<lambda>r. (r ''projectId'', r ''tagId''))
     (snd (insertRow 0 0 projectTags [''projectId'' \<mapsto> VNumber 1, ''tagId'' \<mapsto> VNumber 1]
       (snd (insertRow 0 1 tags [''name'' \<mapsto> VString ''TypeScript'']
         (snd (insertRow 0 1 projects
            [''title'' \<mapsto> VString ''Portfolio'', ''description'' \<mapsto> VString ''site'',
             ''github'' \<mapsto> VString ''https://github.com/x/y''] emptyStore)))))
      ''project_tags''))
   \<and> fst (insertRow 7 0 projectTags [''projectId'' \<mapsto> VNumber 1, ''tagId'' \<mapsto> VNumber 1]
     (snd (insertRow 0 0 projectTags [''projectId'' \<mapsto> VNumber 1, ''tagId'' \<mapsto> VNumber 1]
       (snd (insertRow 0 1 tags [''name'' \<mapsto> VString ''TypeScript'']
         (snd (insertRow 0 1 projects
            [''title'' \<mapsto> VString ''Portfolio'', ''description'' \<mapsto> VString ''site'',
             ''github'' \<mapsto> VString ''https://github.com/x/y''] emptyStore)))))))
     = Inl (UniqueViolation ''project_tags'' [''projectId'', ''tagId''])"
proof -
  let ?vp = "[''title'' \<mapsto> VString ''Portfolio'', ''description'' \<mapsto> VString ''site'',
             ''github'' \<mapsto> VString ''https://github.com/x/y'']"
  let ?vt = "[''name'' \<mapsto> VString ''TypeScript'']"
  let ?vj = "[''projectId'' \<mapsto> VNumber 1, ''tagId'' \<mapsto> VNumber 1]"
  let ?s1 = "snd (insertRow 0 1 projects ?vp emptyStore)"
  let ?s2 = "snd (insertRow 0 1 tags ?vt ?s1)"
  let ?s3 = "snd (insertRow 0 0 projectTags ?vj ?s2)"
  let ?rp = "persistedRow projects 0 1 ?vp"
  let ?rt = "persistedRow tags 0 1 ?vt"
  let ?rj = "persistedRow projectTags 0 0 ?vj"
  have jp: "?rj ''projectId'' = Some (VNumber 1)" by (rule example_ids)
  have jt: "?rj ''tagId'' = Some (VNumber 1)" by (rule example_ids)
  have reach: "reachable ?s3"
    by (intro reachable_insert reachable_empty schemaTables_mem)
  have mem: "?rj \<in> set (?s3 ''project_tags'')" unfolding example_store by simp
  note inst = project_tag_pairs_unique [of ?s3 ?rj "VNumber 1" "VNumber 1" ?vj 7 0]
  from inst have inv: "reachable ?s3 \<longrightarrow>
      distinct (map (\<lambda>r. (r ''projectId'', r ''tagId'')) (?s3 ''project_tags''))"
    by (elim conjE)
  from inst have dupl: "?rj \<in> set (?s3 ''project_tags'') \<and> ?rj ''projectId'' = Some (VNumber 1)
        \<and> ?rj ''tagId'' = Some (VNumber 1)
        \<and> ?vj ''projectId'' = Some (VNumber 1) \<and> ?vj ''tagId'' = Some (VNumber 1) \<longrightarrow>
        (\<exists>e. insertRow 7 0 projectTags ?vj ?s3 = (Inl e, ?s3))
        \<and> (VNumber 1 \<noteq> VNull \<and> VNumber 1 \<noteq> VNull \<longrightarrow>
             insertRow 7 0 projectTags ?vj ?s3
               = (Inl (UniqueViolation ''project_tags'' [''projectId'', ''tagId'']), ?s3))"
    by (elim conjE)
  have pre: "?rj \<in> set (?s3 ''project_tags'') \<and> ?rj ''projectId'' = Some (VNumber 1)
        \<and> ?rj ''tagId'' = Some (VNumber 1)
        \<and> ?vj ''projectId'' = Some (VNumber 1) \<and> ?vj ''tagId'' = Some (VNumber 1)"
    by (intro conjI mem jp jt) simp_all
  from mp [OF dupl pre] have "VNumber 1 \<noteq> VNull \<and> VNumber 1 \<noteq> VNull \<longrightarrow>
             insertRow 7 0 projectTags ?vj ?s3
               = (Inl (UniqueViolation ''project_tags'' [''projectId'', ''tagId'']), ?s3)"
    by (rule conjunct2)
  then have "insertRow 7 0 projectTags ?vj ?s3
      = (Inl (UniqueViolation ''project_tags'' [''projectId'', ''tagId'']), ?s3)"
    by simp
  then have f: "fst (insertRow 7 0 projectTags ?vj ?s3)
      = Inl (UniqueViolation ''project_tags'' [''projectId'', ''tagId''])"
    by (simp only: fst_conv)
  from reach mp [OF inv reach] f show ?thesis by (intro conjI)
qed

section \<open>Referential integrity\<close>
















section \<open>Declared defaults\<close>

lemma default_applied:
  assumes ins: "insertRow now n t v s = (Inr r, s')"
    and col: "map_of (columns t) k = Some c"
    and ty: "colType c \<noteq> PgSerial" and df: "colDefault c = Some (DefaultValue d)"
    and om: "v k = None"
  shows "r k = Some d \<and> r \<in> set (s' (tableName t))"
proof -
  from insertRow_accepted [OF ins] have r: "r = persistedRow t now n v"
    and s': "s' = s(tableName t := s (tableName t) @ [r])" by simp_all
  have "persistedRow t now n v k = Some (columnValue now n c (v k))"
    using col by (rule persistedRow_column)
  with ty df om have "r k = Some d" by (simp add: r columnValue_def)
  moreover have "r \<in> set (s' (tableName t))" by (simp add: s')
  ultimately show ?thesis by (rule conjI)
qed

lemma supplied_stored:
  assumes ins: "insertRow now n t v s = (Inr r, s')"
    and col: "map_of (columns t) k = Some c" and sup: "v k = Some x"
  shows "r k = Some x"
proof -
  from insertRow_accepted [OF ins] have r: "r = persistedRow t now n v" by simp
  have "persistedRow t now n v k = Some x" using col sup by (rule persistedRow_supplied)
  then show ?thesis by (simp add: r)
qed

lemma default_flags:
  "colType (default_to d (boolean n)) \<noteq> PgSerial"
  "colType (default_to d (pgText n)) \<noteq> PgSerial"
  "colType (default_to d (integer n)) \<noteq> PgSerial"
  "colNotNull (default_to d (boolean n)) = False"
  "colNotNull (default_to d (pgText n)) = False"
  "colNotNull (default_to d (integer n)) = False"
  by (simp_all add: builder_defs)

text \<open>
  Claim C4. When an insert is accepted, the persisted record of a Project whose values
  omit \<open>featured\<close> has \<open>featured = false\<close>; of a Tag whose values omit \<open>color\<close>,
  \<open>color = "gray"\<close>; of an Experience or a Skill whose values omit \<open>order\<close>, \<open>order = 0\<close>;
  and the record is a row of its table in the store the insert leaves.
\<close>

theorem defaults_applied:
  "(v ''featured'' = None \<and> insertRow now n projects v s = (Inr r, s') \<longrightarrow>
      r ''featured'' = Some (VBoolean False) \<and> r \<in> set (s' ''projects''))
   \<and> (v ''color'' = None \<and> insertRow now n tags v s = (Inr r, s') \<longrightarrow>
      r ''color'' = Some (VString ''gray'') \<and> r \<in> set (s' ''tags''))
   \<and> (v ''order'' = None \<and> insertRow now n experiences v s = (Inr r, s') \<longrightarrow>
      r ''order'' = Some (VNumber 0) \<and> r \<in> set (s' ''experiences''))
   \<and> (v ''order'' = None \<and> insertRow now n skills v s = (Inr r, s') \<longrightarrow>
      r ''order'' = Some (VNumber 0) \<and> r \<in> set (s' ''skills''))"
proof (intro conjI impI)
  assume a: "v ''featured'' = None \<and> insertRow now n projects v s = (Inr r, s')"
  from default_applied [OF conjunct2 [OF a] column_facts(6) default_flags(1) builder_flags(6)
      conjunct1 [OF a]]
  show "r ''featured'' = Some (VBoolean False)" and "r \<in> set (s' ''projects'')"
    by (simp_all only: table_names)
next
  assume a: "v ''color'' = None \<and> insertRow now n tags v s = (Inr r, s')"
  from default_applied [OF conjunct2 [OF a] column_facts(7) default_flags(2) builder_flags(6)
      conjunct1 [OF a]]
  show "r ''color'' = Some (VString ''gray'')" and "r \<in> set (s' ''tags'')"
    by (simp_all only: table_names)
next
  assume a: "v ''order'' = None \<and> insertRow now n experiences v s = (Inr r, s')"
  from default_applied [OF conjunct2 [OF a] column_facts(9) default_flags(3) builder_flags(6)
      conjunct1 [OF a]]
  show "r ''order'' = Some (VNumber 0)" and "r \<in> set (s' ''experiences'')"
    by (simp_all only: table_names)
next
  assume a: "v ''order'' = None \<and> insertRow now n skills v s = (Inr r, s')"
  from default_applied [OF conjunct2 [OF a] column_facts(8) default_flags(3) builder_flags(6)
      conjunct1 [OF a]]
  show "r ''order'' = Some (VNumber 0)" and "r \<in> set (s' ''skills'')"
    by (simp_all only: table_names)
qed

lemma first_insert:
  assumes "violations emptyStore t (persistedRow t now n v) = []"
  shows "insertRow now n t v emptyStore =
     (Inr (persistedRow t now n v), emptyStore(tableName t := [persistedRow t now n v]))"
  using insertRow_accepted_eq [OF assms] by (simp add: emptyStore_def)

lemma first_inserts_accepted:
  "violations emptyStore projects (persistedRow projects 0 1
     [''title'' \<mapsto> VString ''Portfolio'', ''description'' \<mapsto> VString ''site'',
      ''github'' \<mapsto> VString ''https://github.com/x/y'']) = []"
  "violations emptyStore tags (persistedRow tags 0 1 [''name'' \<mapsto> VString ''TypeScript'']) = []"
  "violations emptyStore experiences (persistedRow experiences 0 1
     [''title'' \<mapsto> VString ''Engineer'', ''subtitle'' \<mapsto> VString ''Acme'',
      ''type'' \<mapsto> VString ''work'']) = []"
  "violations emptyStore skills (persistedRow skills 0 1
     [''name'' \<mapsto> VString ''Isabelle'', ''icon'' \<mapsto> VString ''lambda'',
      ''category'' \<mapsto> VString ''tools'']) = []"
  by (simp add: violation_defs emptyStore_def table_names,
      simp add: persistedRow_def columnValue_def table_defs builder_defs)+

theorem defaults_applied_witness:
  "fst (insertRow 0 1 projects
       [''title'' \<mapsto> VString ''Portfolio'', ''description'' \<mapsto> VString ''site'',
        ''github'' \<mapsto> VString ''https://github.com/x/y''] emptyStore)
     = Inr (persistedRow projects 0 1
       [''title'' \<mapsto> VString ''Portfolio'', ''description'' \<mapsto> VString ''site'',
        ''github'' \<mapsto> VString ''https://github.com/x/y''])
   \<and> persistedRow projects 0 1
       [''title'' \<mapsto> VString ''Portfolio'', ''description'' \<mapsto> VString ''site'',
        ''github'' \<mapsto> VString ''https://github.com/x/y''] ''featured'' = Some (VBoolean False)
   \<and> fst (insertRow 0 1 tags [''name'' \<mapsto> VString ''TypeScript''] emptyStore)
     = Inr (persistedRow tags 0 1 [''name'' \<mapsto> VString ''TypeScript''])
   \<and> persistedRow tags 0 1 [''name'' \<mapsto> VString ''TypeScript''] ''color''
     = Some (VString ''gray'')
   \<and> fst (insertRow 0 1 experiences
       [''title'' \<mapsto> VString ''Engineer'', ''subtitle'' \<mapsto> VString ''Acme'',
        ''type'' \<mapsto> VString ''work''] emptyStore)
     = Inr (persistedRow experiences 0 1
       [''title'' \<mapsto> VString ''Engineer'', ''subtitle'' \<mapsto> VString ''Acme'',
        ''type'' \<mapsto> VString ''work''])
   \<and> persistedRow experiences 0 1
       [''title'' \<mapsto> VString ''Engineer'', ''subtitle'' \<mapsto> VString ''Acme'',
        ''type'' \<mapsto> VString ''work''] ''order'' = Some (VNumber 0)
   \<and> fst (insertRow 0 1 skills
       [''name'' \<mapsto> VString ''Isabelle'', ''icon'' \<mapsto> VString ''lambda'',
        ''category'' \<mapsto> VString ''tools''] emptyStore)
     = Inr (persistedRow skills 0 1
       [''name'' \<mapsto> VString ''Isabelle'', ''icon'' \<mapsto> VString ''lambda'',
        ''category'' \<mapsto> VString ''tools''])
   \<and> persistedRow skills 0 1
       [''name'' \<mapsto> VString ''Isabelle'', ''icon'' \<mapsto> VString ''lambda'',
        ''category'' \<mapsto> VString ''tools''] ''order'' = Some (VNumber 0)"
proof -
  let ?vp = "[''title'' \<mapsto> VString ''Portfolio'', ''description'' \<mapsto> VString ''site'',
        ''github'' \<mapsto> VString ''https://github.com/x/y'']"
  let ?vt = "[''name'' \<mapsto> VString ''TypeScript'']"
  let ?ve = "[''title'' \<mapsto> VString ''Engineer'', ''subtitle'' \<mapsto> VString ''Acme'',
        ''type'' \<mapsto> VString ''work'']"
  let ?vs = "[''name'' \<mapsto> VString ''Isabelle'', ''icon'' \<mapsto> VString ''lambda'',
        ''category'' \<mapsto> VString ''tools'']"
  note ip = first_insert [OF first_inserts_accepted(1)]
  note it = first_insert [OF first_inserts_accepted(2)]
  note ie = first_insert [OF first_inserts_accepted(3)]
  note isk = first_insert [OF first_inserts_accepted(4)]
  have p: "persistedRow projects 0 1 ?vp ''featured'' = Some (VBoolean False)"
  proof -
    have "?vp ''featured'' = None \<and> insertRow 0 1 projects ?vp emptyStore =
        (Inr (persistedRow projects 0 1 ?vp),
         emptyStore(tableName projects := [persistedRow projects 0 1 ?vp]))"
      by (intro conjI ip) simp
    from mp [OF conjunct1 [OF defaults_applied] this] show ?thesis by (rule conjunct1)
  qed
  have t: "persistedRow tags 0 1 ?vt ''color'' = Some (VString ''gray'')"
  proof -
    have "?vt ''color'' = None \<and> insertRow 0 1 tags ?vt emptyStore =
        (Inr (persistedRow tags 0 1 ?vt), emptyStore(tableName tags := [persistedRow tags 0 1 ?vt]))"
      by (intro conjI it) simp
    from mp [OF conjunct1 [OF conjunct2 [OF defaults_applied]] this] show ?thesis
      by (rule conjunct1)
  qed
  have e: "persistedRow experiences 0 1 ?ve ''order'' = Some (VNumber 0)"
  proof -
    have "?ve ''order'' = None \<and> insertRow 0 1 experiences ?ve emptyStore =
        (Inr (persistedRow experiences 0 1 ?ve),
         emptyStore(tableName experiences := [persistedRow experiences 0 1 ?ve]))"
      by (intro conjI ie) simp
    from mp [OF conjunct1 [OF conjunct2 [OF conjunct2 [OF defaults_applied]]] this]
    show ?thesis by (rule conjunct1)
  qed
  have s: "persistedRow skills 0 1 ?vs ''order'' = Some (VNumber 0)"
  proof -
    have "?vs ''order'' = None \<and> insertRow 0 1 skills ?vs emptyStore =
        (Inr (persistedRow skills 0 1 ?vs),
         emptyStore(tableName skills := [persistedRow skills 0 1 ?vs]))"
      by (intro conjI isk) simp
    from mp [OF conjunct2 [OF conjunct2 [OF conjunct2 [OF defaults_applied]]] this]
    show ?thesis by (rule conjunct1)
  qed
  have fp: "fst (insertRow 0 1 projects ?vp emptyStore) = Inr (persistedRow projects 0 1 ?vp)"
    by (simp only: ip fst_conv)
  have ft: "fst (insertRow 0 1 tags ?vt emptyStore) = Inr (persistedRow tags 0 1 ?vt)"
    by (simp only: it fst_conv)
  have fe: "fst (insertRow 0 1 experiences ?ve emptyStore) = Inr (persistedRow experiences 0 1 ?ve)"
    by (simp only: ie fst_conv)
  have fs: "fst (insertRow 0 1 skills ?vs emptyStore) = Inr (persistedRow skills 0 1 ?vs)"
    by (simp only: isk fst_conv)
  show ?thesis by (intro conjI fp p ft t fe e fs s)
qed

section \<open>Defaulted columns are nullable\<close>

lemma parseKey_other: "fst kf \<noteq> k \<Longrightarrow> parseKey (c(k \<mapsto> x)) kf = parseKey c kf"
  by (simp add: parseKey_def)

lemma parseKey_null: "zNullable (snd kf) \<Longrightarrow> parseKey (c(fst kf \<mapsto> VNull)) kf = []"
  by (simp add: parseKey_def)

lemma safeParse_null_ok:
  assumes dist: "distinct (map fst sh)" and f: "map_of sh k = Some f" and nu: "zNullable f"
    and ok: "safeParse sh c = Inr v"
  shows "safeParse sh (c(k \<mapsto> VNull)) = Inr (v(k \<mapsto> VNull))"
proof -
  note old = safeParse_Inr [OF ok]
  have "parseKey (c(k \<mapsto> VNull)) kf = []" if mem: "kf \<in> set sh" for kf
  proof (cases "fst kf = k")
    case True
    have "(fst kf, snd kf) \<in> set sh" using mem by simp
    with dist have "map_of sh (fst kf) = Some (snd kf)" by (rule map_of_is_SomeI)
    with f True have "snd kf = f" by simp
    with nu parseKey_null [of kf c] True show ?thesis by simp
  next
    case False
    from old(1) mem have "parseKey c kf = []" by auto
    with parseKey_other [OF False] show ?thesis by simp
  qed
  then have "concat (map (parseKey (c(k \<mapsto> VNull))) sh) = []" by simp
  moreover have "k \<in> set (map fst sh)"
    using map_of_SomeD [OF f] by force
  then have "(c(k \<mapsto> VNull)) |` set (map fst sh) = v(k \<mapsto> VNull)"
    unfolding old(2) by (auto simp: restrict_map_def fun_eq_iff)
  ultimately show ?thesis by (simp add: safeParse_def)
qed

lemma entity_schema_distinct:
  assumes "(t, sh) \<in> set entities"
  shows "distinct (map fst sh)"
  using assms by (cases rule: entity_cases) (simp_all add: insert_schema_shapes)

lemma defaulted_cases:
  assumes "(t, sh, k) \<in> set
     [(projects, insertProjectSchema, ''featured''), (tags, insertTagSchema, ''color''),
      (skills, insertSkillSchema, ''order''), (experiences, insertExperienceSchema, ''order''),
      (experienceDetails, insertExperienceDetailSchema, ''order'')]"
  obtains d b where "(t, sh) \<in> set entities"
    and "map_of (columns t) k = Some (default_to d (mkColumn k b))"
    and "d \<noteq> VNull" and "b \<noteq> PgSerial"
    and "\<exists>f. map_of sh k = Some f \<and> zNullable f \<and> zOptional f"
proof -
  from assms consider
    "t = projects" "sh = insertProjectSchema" "k = ''featured''"
    | "t = tags" "sh = insertTagSchema" "k = ''color''"
    | "t = skills" "sh = insertSkillSchema" "k = ''order''"
    | "t = experiences" "sh = insertExperienceSchema" "k = ''order''"
    | "t = experienceDetails" "sh = insertExperienceDetailSchema" "k = ''order''"
    by auto
  then show thesis
  proof cases
    case 1
    show thesis
      by (rule that [of "VBoolean False" PgBoolean])
        (simp_all add: 1 entities_def column_facts boolean_def insert_schema_shapes)
  next
    case 2
    show thesis
      by (rule that [of "VString ''gray''" PgText])
        (simp_all add: 2 entities_def column_facts pgText_def insert_schema_shapes)
  next
    case 3
    show thesis
      by (rule that [of "VNumber 0" PgInteger])
        (simp_all add: 3 entities_def column_facts integer_def insert_schema_shapes)
  next
    case 4
    show thesis
      by (rule that [of "VNumber 0" PgInteger])
        (simp_all add: 4 entities_def column_facts integer_def insert_schema_shapes)
  next
    case 5
    show thesis
      by (rule that [of "VNumber 0" PgInteger])
        (simp_all add: 5 entities_def column_facts integer_def insert_schema_shapes)
  qed
qed

lemma mkColumn_default_flags:
  "colNotNull (default_to d (mkColumn k b)) = False"
  "colDefault (default_to d (mkColumn k b)) = Some (DefaultValue d)"
  "colType (default_to d (mkColumn k b)) = b"
  by (simp_all add: builder_defs)

text \<open>
  Claim C10. For \<open>featured\<close> of Project, \<open>color\<close> of Tag and \<open>order\<close> of Skill, Experience
  and ExperienceDetail: the column is nullable; a candidate that passes validation still
  passes with the field set to \<open>null\<close>, and the parsed value carries the \<open>null\<close>; an
  accepted insert whose values give the field as \<open>null\<close> persists \<open>null\<close>; one whose
  values omit the field persists the declared default, which is not \<open>null\<close>.
\<close>

theorem defaulted_columns_nullable:
  assumes "(t, sh, k) \<in> set
     [(projects, insertProjectSchema, ''featured''), (tags, insertTagSchema, ''color''),
      (skills, insertSkillSchema, ''order''), (experiences, insertExperienceSchema, ''order''),
      (experienceDetails, insertExperienceDetailSchema, ''order'')]"
  shows "map_option colNotNull (map_of (columns t) k) = Some False
       \<and> (safeParse sh c = Inr v \<longrightarrow> safeParse sh (c(k \<mapsto> VNull)) = Inr (v(k \<mapsto> VNull)))
       \<and> (w k = Some VNull \<and> insertRow now n t w s = (Inr r, s') \<longrightarrow> r k = Some VNull)
       \<and> (w k = None \<and> insertRow now n t w s = (Inr r, s') \<longrightarrow>
            (\<exists>d. map_option colDefault (map_of (columns t) k) = Some (Some (DefaultValue d))
                 \<and> d \<noteq> VNull \<and> r k = Some d))"
  using assms
proof (cases rule: defaulted_cases)
  case (1 d b)
  obtain f where f: "map_of sh k = Some f" and nu: "zNullable f" using 1(5) by blast
  show ?thesis
  proof (intro conjI impI)
    show "map_option colNotNull (map_of (columns t) k) = Some False"
      by (simp add: 1(2) mkColumn_default_flags)
  next
    assume "safeParse sh c = Inr v"
    with entity_schema_distinct [OF 1(1)] f nu
    show "safeParse sh (c(k \<mapsto> VNull)) = Inr (v(k \<mapsto> VNull))"
      by (rule safeParse_null_ok)
  next
    assume a: "w k = Some VNull \<and> insertRow now n t w s = (Inr r, s')"
    from supplied_stored [OF conjunct2 [OF a] 1(2) conjunct1 [OF a]]
    show "r k = Some VNull" .
  next
    assume a: "w k = None \<and> insertRow now n t w s = (Inr r, s')"
    have ty: "colType (default_to d (mkColumn k b)) \<noteq> PgSerial"
      using 1(4) by (simp add: mkColumn_default_flags)
    from default_applied [OF conjunct2 [OF a] 1(2) ty mkColumn_default_flags(2) conjunct1 [OF a]]
    have "r k = Some d" by (rule conjunct1)
    moreover have "map_option colDefault (map_of (columns t) k) = Some (Some (DefaultValue d))"
      by (simp add: 1(2) mkColumn_default_flags)
    ultimately show "\<exists>d. map_option colDefault (map_of (columns t) k) = Some (Some (DefaultValue d))
        \<and> d \<noteq> VNull \<and> r k = Some d"
      using 1(3) by (intro exI [of _ d] conjI)
  qed
qed

theorem defaulted_columns_nullable_witness:
  "map_option colNotNull (map_of (columns projects) ''featured'') = Some False
   \<and> safeParse insertProjectSchema
       [''title'' \<mapsto> VString ''Portfolio'', ''description'' \<mapsto> VString ''site'',
        ''github'' \<mapsto> VString ''https://github.com/x/y'', ''featured'' \<mapsto> VNull]
     = Inr [''title'' \<mapsto> VString ''Portfolio'', ''description'' \<mapsto> VString ''site'',
        ''github'' \<mapsto> VString ''https://github.com/x/y'', ''featured'' \<mapsto> VNull]
   \<and> fst (insertRow 0 1 projects
       [''title'' \<mapsto> VString ''Portfolio'', ''description'' \<mapsto> VString ''site'',
        ''github'' \<mapsto> VString ''https://github.com/x/y'', ''featured'' \<mapsto> VNull] emptyStore)
     = Inr (persistedRow projects 0 1
       [''title'' \<mapsto> VString ''Portfolio'', ''description'' \<mapsto> VString ''site'',
        ''github'' \<mapsto> VString ''https://github.com/x/y'', ''featured'' \<mapsto> VNull])
   \<and> persistedRow projects 0 1
       [''title'' \<mapsto> VString ''Portfolio'', ''description'' \<mapsto> VString ''site'',
        ''github'' \<mapsto> VString ''https://github.com/x/y'', ''featured'' \<mapsto> VNull]
       ''featured'' = Some VNull"
proof -
  let ?vp = "[''title'' \<mapsto> VString ''Portfolio'', ''description'' \<mapsto> VString ''site'',
        ''github'' \<mapsto> VString ''https://github.com/x/y'']"
  let ?w = "?vp(''featured'' \<mapsto> VNull)"
  let ?r = "persistedRow projects 0 1 ?w"
  have m: "(projects, insertProjectSchema, ''featured'') \<in> set
     [(projects, insertProjectSchema, ''featured''), (tags, insertTagSchema, ''color''),
      (skills, insertSkillSchema, ''order''), (experiences, insertExperienceSchema, ''order''),
      (experienceDetails, insertExperienceDetailSchema, ''order'')]"
    by simp
  note inst = defaulted_columns_nullable [OF m, of ?vp ?vp ?w 0 1 emptyStore ?r
      "emptyStore(tableName projects := [?r])"]
  have ok: "safeParse insertProjectSchema ?vp = Inr ?vp"
  proof (rule safeParse_all_ok)
    show "\<forall>kf\<in>set insertProjectSchema. parseKey ?vp kf = []"
      by (simp add: insert_schema_shapes parseKey_def)
    show "dom ?vp \<subseteq> fst ` set insertProjectSchema"
      by (simp add: insert_schema_shapes)
  qed
  have viol: "violations emptyStore projects ?r = []"
    by (simp add: violation_defs emptyStore_def table_names)
      (simp add: persistedRow_def columnValue_def table_defs builder_defs)
  note ins = first_insert [OF viol]
  from inst have a: "map_option colNotNull (map_of (columns projects) ''featured'') = Some False"
    by (rule conjunct1)
  from inst have "safeParse insertProjectSchema ?vp = Inr ?vp \<longrightarrow>
      safeParse insertProjectSchema ?w = Inr ?w"
    by (rule conjunct1 [OF conjunct2])
  from mp [OF this ok] have b: "safeParse insertProjectSchema ?w = Inr ?w" .
  from inst have "?w ''featured'' = Some VNull \<and> insertRow 0 1 projects ?w emptyStore
      = (Inr ?r, emptyStore(tableName projects := [?r])) \<longrightarrow> ?r ''featured'' = Some VNull"
    by (rule conjunct1 [OF conjunct2 [OF conjunct2]])
  moreover have "?w ''featured'' = Some VNull \<and> insertRow 0 1 projects ?w emptyStore
      = (Inr ?r, emptyStore(tableName projects := [?r]))"
    by (intro conjI ins) simp
  ultimately have d: "?r ''featured'' = Some VNull" by (rule mp)
  have c: "fst (insertRow 0 1 projects ?w emptyStore) = Inr ?r" by (simp only: ins fst_conv)
  show ?thesis by (intro conjI a b c d)
qed

section \<open>The details of an experience come in order\<close>

lemma detail_key_le:
  assumes "detailOrderKey a \<le> detailOrderKey b"
    and "a ''order'' = Some (VNumber m)" and "b ''order'' = Some (VNumber n)"
  shows "m < n \<or> (m = n \<and> (\<forall>i j. a ''id'' = Some (VNumber i) \<and> b ''id'' = Some (VNumber j)
            \<longrightarrow> i \<le> j))"
  using assms by (auto simp: detailOrderKey_def less_eq_prod_def)

lemma details_sorted_by_key:
  "sorted_wrt (\<lambda>a b. detailOrderKey a \<le> detailOrderKey b) (experienceDetailsOf s eid)"
proof -
  have "sorted (map detailOrderKey (experienceDetailsOf s eid))"
    unfolding experienceDetailsOf_def by (rule sorted_sort_key)
  then show ?thesis by (simp add: sorted_map)
qed

lemma three_details_sorted:
  assumes "map (\<lambda>r. r ''order'') xs = [Some (VNumber 2), Some (VNumber 0), Some (VNumber 1)]"
  shows "map (\<lambda>r. r ''order'') (sort_key detailOrderKey xs)
      = [Some (VNumber 0), Some (VNumber 1), Some (VNumber 2)]"
proof -
  from assms obtain a b c where xs: "xs = [a, b, c]"
    and a: "a ''order'' = Some (VNumber 2)" and b: "b ''order'' = Some (VNumber 0)"
    and c: "c ''order'' = Some (VNumber 1)"
    by (auto simp: map_eq_Cons_conv)
  have "sort_key detailOrderKey [a, b, c] = [b, c, a]"
    by (simp add: detailOrderKey_def a b c less_eq_prod_def)
  then show ?thesis by (simp add: xs a b c)
qed

text \<open>
  Claim C8. The details retrieved for an experience are exactly its ExperienceDetail
  rows, each as often as it is stored, in an order where a row with a smaller \<open>order\<close>
  comes first and, of two rows with the same \<open>order\<close>, the one with the smaller \<open>id\<close>.
  When the rows as stored have the \<open>order\<close> values 2, 0, 1, they are retrieved with the
  \<open>order\<close> values 0, 1, 2.
\<close>

theorem details_ordered:
  "mset (experienceDetailsOf s eid)
     = mset (filter (\<lambda>r. r ''experienceId'' = Some eid) (s ''experience_details''))
   \<and> sorted_wrt (\<lambda>a b. \<forall>m n. a ''order'' = Some (VNumber m) \<and> b ''order'' = Some (VNumber n) \<longrightarrow>
          m < n \<or> (m = n \<and> (\<forall>i j. a ''id'' = Some (VNumber i) \<and> b ''id'' = Some (VNumber j)
            \<longrightarrow> i \<le> j)))
        (experienceDetailsOf s eid)
   \<and> (map (\<lambda>r. r ''order'')
          (filter (\<lambda>r. r ''experienceId'' = Some eid) (s ''experience_details''))
        = [Some (VNumber 2), Some (VNumber 0), Some (VNumber 1)] \<longrightarrow>
       map (\<lambda>r. r ''order'') (experienceDetailsOf s eid)
        = [Some (VNumber 0), Some (VNumber 1), Some (VNumber 2)])"
proof (intro conjI impI)
  show "mset (experienceDetailsOf s eid)
     = mset (filter (\<lambda>r. r ''experienceId'' = Some eid) (s ''experience_details''))"
    unfolding experienceDetailsOf_def by (rule mset_sort)
next
  show "sorted_wrt (\<lambda>a b. \<forall>m n. a ''order'' = Some (VNumber m) \<and> b ''order'' = Some (VNumber n) \<longrightarrow>
          m < n \<or> (m = n \<and> (\<forall>i j. a ''id'' = Some (VNumber i) \<and> b ''id'' = Some (VNumber j)
            \<longrightarrow> i \<le> j)))
        (experienceDetailsOf s eid)"
    by (rule sorted_wrt_mono_rel [OF _ details_sorted_by_key]) (use detail_key_le in blast)
next
  assume "map (\<lambda>r. r ''order'')
          (filter (\<lambda>r. r ''experienceId'' = Some eid) (s ''experience_details''))
        = [Some (VNumber 2), Some (VNumber 0), Some (VNumber 1)]"
  then show "map (\<lambda>r. r ''order'') (experienceDetailsOf s eid)
        = [Some (VNumber 0), Some (VNumber 1), Some (VNumber 2)]"
    unfolding experienceDetailsOf_def by (rule three_details_sorted)
qed

lemma experienceDetails_columns:
  "columns experienceDetails =
     [(''id'', primaryKey (serial ''id'')),
      (''experienceId'', references ''experiences'' ''id'' (notNull (integer ''experience_id''))),
      (''detail'', notNull (pgText ''detail'')),
      (''order'', default_to (VNumber 0) (integer ''order''))]"
  "compositeKey experienceDetails = []"
  by (simp_all add: experienceDetails_def pgTable_def)

lemma detail_row_values:
  assumes "v ''id'' = None" and "v ''experienceId'' = Some e" and "v ''detail'' = Some d"
    and "v ''order'' = Some p"
  shows "persistedRow experienceDetails now n v ''id'' = Some (VNumber n)"
    and "persistedRow experienceDetails now n v ''experienceId'' = Some e"
    and "persistedRow experienceDetails now n v ''detail'' = Some d"
    and "persistedRow experienceDetails now n v ''order'' = Some p"
  using assms
  by (simp_all add: persistedRow_def columnValue_def experienceDetails_columns builder_defs)

lemma ordered_example_store:
  "(snd (insertRow 0 3 experienceDetails
        [''experienceId'' \<mapsto> VNumber 1, ''detail'' \<mapsto> VString ''built'', ''order'' \<mapsto> VNumber 1]
     (snd (insertRow 0 2 experienceDetails
        [''experienceId'' \<mapsto> VNumber 1, ''detail'' \<mapsto> VString ''joined'', ''order'' \<mapsto> VNumber 0]
     (snd (insertRow 0 1 experienceDetails
        [''experienceId'' \<mapsto> VNumber 1, ''detail'' \<mapsto> VString ''shipped'', ''order'' \<mapsto> VNumber 2]
     (snd (insertRow 0 1 experiences
       [''title'' \<mapsto> VString ''Engineer'', ''subtitle'' \<mapsto> VString ''Acme'',
        ''type'' \<mapsto> VString ''work''] emptyStore)))))))) ''experience_details'' =
     [persistedRow experienceDetails 0 1 [''experienceId'' \<mapsto> VNumber 1, ''detail'' \<mapsto> VString ''shipped'', ''order'' \<mapsto> VNumber 2],
      persistedRow experienceDetails 0 2 [''experienceId'' \<mapsto> VNumber 1, ''detail'' \<mapsto> VString ''joined'', ''order'' \<mapsto> VNumber 0],
      persistedRow experienceDetails 0 3 [''experienceId'' \<mapsto> VNumber 1, ''detail'' \<mapsto> VString ''built'', ''order'' \<mapsto> VNumber 1]]"
proof -
  let ?ve = "[''title'' \<mapsto> VString ''Engineer'', ''subtitle'' \<mapsto> VString ''Acme'',
        ''type'' \<mapsto> VString ''work'']"
  let ?d1 = "[''experienceId'' \<mapsto> VNumber 1, ''detail'' \<mapsto> VString ''shipped'', ''order'' \<mapsto> VNumber 2]"
  let ?d2 = "[''experienceId'' \<mapsto> VNumber 1, ''detail'' \<mapsto> VString ''joined'', ''order'' \<mapsto> VNumber 0]"
  let ?d3 = "[''experienceId'' \<mapsto> VNumber 1, ''detail'' \<mapsto> VString ''built'', ''order'' \<mapsto> VNumber 1]"
  let ?re = "persistedRow experiences 0 1 ?ve"
  let ?r1 = "persistedRow experienceDetails 0 1 ?d1"
  let ?r2 = "persistedRow experienceDetails 0 2 ?d2"
  let ?r3 = "persistedRow experienceDetails 0 3 ?d3"
  let ?s0 = "snd (insertRow 0 1 experiences ?ve emptyStore)"
  let ?s1 = "snd (insertRow 0 1 experienceDetails ?d1 ?s0)"
  let ?s2 = "snd (insertRow 0 2 experienceDetails ?d2 ?s1)"
  let ?s3 = "snd (insertRow 0 3 experienceDetails ?d3 ?s2)"
  have ide: "?re ''id'' = Some (VNumber 1)"
    by (simp add: persistedRow_def columnValue_def experiences_def builder_defs)
  note r1 = detail_row_values [of ?d1 "VNumber 1" "VString ''shipped''" "VNumber 2" 0 1, simplified]
  note r2 = detail_row_values [of ?d2 "VNumber 1" "VString ''joined''" "VNumber 0" 0 2, simplified]
  note r3 = detail_row_values [of ?d3 "VNumber 1" "VString ''built''" "VNumber 1" 0 3, simplified]
  have s0: "?s0 = emptyStore(''experiences'' := [?re])"
    using first_insert [OF first_inserts_accepted(3)] by (simp add: table_names)
  have s1: "?s1 = (emptyStore(''experiences'' := [?re]))(''experience_details'' := [?r1])"
  proof -
    have "violations (emptyStore(''experiences'' := [?re])) experienceDetails ?r1 = []"
      by (simp add: violation_defs emptyStore_def table_names experienceDetails_columns
          builder_defs ide r1)
    from insertRow_accepted_eq [OF this] show ?thesis
      unfolding s0 by (simp add: table_names emptyStore_def)
  qed
  have s2: "?s2 = (emptyStore(''experiences'' := [?re]))(''experience_details'' := [?r1, ?r2])"
  proof -
    have "violations ((emptyStore(''experiences'' := [?re]))(''experience_details'' := [?r1]))
        experienceDetails ?r2 = []"
      by (simp add: violation_defs emptyStore_def table_names experienceDetails_columns
          builder_defs ide r1 r2)
    from insertRow_accepted_eq [OF this] show ?thesis
      unfolding s1 by (simp add: table_names emptyStore_def)
  qed
  have s3: "?s3 = (emptyStore(''experiences'' := [?re]))
      (''experience_details'' := [?r1, ?r2, ?r3])"
  proof -
    have "violations ((emptyStore(''experiences'' := [?re]))(''experience_details'' := [?r1, ?r2]))
        experienceDetails ?r3 = []"
      by (simp add: violation_defs emptyStore_def table_names experienceDetails_columns
          builder_defs ide r1 r2 r3)
    from insertRow_accepted_eq [OF this] show ?thesis
      unfolding s2 by (simp add: table_names emptyStore_def)
  qed
  show ?thesis unfolding s3 by simp
qed

theorem details_ordered_witness:
  "map (\<lambda>r. r ''order'') (experienceDetailsOf
     (snd (insertRow 0 3 experienceDetails
        [''experienceId'' \<mapsto> VNumber 1, ''detail'' \<mapsto> VString ''built'', ''order'' \<mapsto> VNumber 1]
     (snd (insertRow 0 2 experienceDetails
        [''experienceId'' \<mapsto> VNumber 1, ''detail'' \<mapsto> VString ''joined'', ''order'' \<mapsto> VNumber 0]
     (snd (insertRow 0 1 experienceDetails
        [''experienceId'' \<mapsto> VNumber 1, ''detail'' \<mapsto> VString ''shipped'', ''order'' \<mapsto> VNumber 2]
     (snd (insertRow 0 1 experiences
       [''title'' \<mapsto> VString ''Engineer'', ''subtitle'' \<mapsto> VString ''Acme'',
        ''type'' \<mapsto> VString ''work''] emptyStore)))))))) (VNumber 1))
   = [Some (VNumber 0), Some (VNumber 1), Some (VNumber 2)]"
proof -
  let ?S = "(snd (insertRow 0 3 experienceDetails
        [''experienceId'' \<mapsto> VNumber 1, ''detail'' \<mapsto> VString ''built'', ''order'' \<mapsto> VNumber 1]
     (snd (insertRow 0 2 experienceDetails
        [''experienceId'' \<mapsto> VNumber 1, ''detail'' \<mapsto> VString ''joined'', ''order'' \<mapsto> VNumber 0]
     (snd (insertRow 0 1 experienceDetails
        [''experienceId'' \<mapsto> VNumber 1, ''detail'' \<mapsto> VString ''shipped'', ''order'' \<mapsto> VNumber 2]
     (snd (insertRow 0 1 experiences
       [''title'' \<mapsto> VString ''Engineer'', ''subtitle'' \<mapsto> VString ''Acme'',
        ''type'' \<mapsto> VString ''work''] emptyStore))))))))"
  let ?r1 = "persistedRow experienceDetails 0 1 [''experienceId'' \<mapsto> VNumber 1, ''detail'' \<mapsto> VString ''shipped'', ''order'' \<mapsto> VNumber 2]"
  let ?r2 = "persistedRow experienceDetails 0 2 [''experienceId'' \<mapsto> VNumber 1, ''detail'' \<mapsto> VString ''joined'', ''order'' \<mapsto> VNumber 0]"
  let ?r3 = "persistedRow experienceDetails 0 3 [''experienceId'' \<mapsto> VNumber 1, ''detail'' \<mapsto> VString ''built'', ''order'' \<mapsto> VNumber 1]"
  note r1 = detail_row_values [of "[''experienceId'' \<mapsto> VNumber 1, ''detail'' \<mapsto> VString ''shipped'', ''order'' \<mapsto> VNumber 2]" "VNumber 1" "VString ''shipped''" "VNumber 2" 0 1, simplified]
  note r2 = detail_row_values [of "[''experienceId'' \<mapsto> VNumber 1, ''detail'' \<mapsto> VString ''joined'', ''order'' \<mapsto> VNumber 0]" "VNumber 1" "VString ''joined''" "VNumber 0" 0 2, simplified]
  note r3 = detail_row_values [of "[''experienceId'' \<mapsto> VNumber 1, ''detail'' \<mapsto> VString ''built'', ''order'' \<mapsto> VNumber 1]" "VNumber 1" "VString ''built''" "VNumber 1" 0 3, simplified]
  have "map (\<lambda>r. r ''order'')
      (filter (\<lambda>r. r ''experienceId'' = Some (VNumber 1)) (?S ''experience_details''))
    = [Some (VNumber 2), Some (VNumber 0), Some (VNumber 1)]"
    unfolding ordered_example_store by (simp add: r1 r2 r3)
  with details_ordered [of ?S "VNumber 1"] show ?thesis
    by (elim conjE) (erule (1) mp)
qed

end
